theory Spec2Isabelle
  imports Main "HOL-Library.Word"
begin

unbundle bit_operations_syntax

section \<open>The control layer of the guitar firmware\<close>

text \<open>
  Source: \<^verbatim>\<open>Arduino/libraries/Control Layer/RemoteControl.{h,cpp}\<close>.
  The class \<^verbatim>\<open>RemoteControl\<close> frames packets out of the serial receive buffer
  (\<^verbatim>\<open>parseSerialData\<close>), keeps pending commands in a fixed array with a fill count, and
  fires them against a synchronised clock (\<^verbatim>\<open>update\<close>).

  What the code does to its surroundings is a list of \<open>action\<close>s, in program order:
  text written to the serial port, calls of the servo driver, and the one second
  \<^verbatim>\<open>delay\<close> of the error loop. The serial receive buffer is the list of bytes that have
  arrived and are not yet read; \<^verbatim>\<open>millis()\<close> is a parameter, an unsigned 32-bit count.

  Three things are fixed by the model and not by the code: bytes arrive between two
  calls of \<^verbatim>\<open>handle\<close>, not during one; \<^verbatim>\<open>millis()\<close> gives the same value throughout one
  call; the receive buffer has room for whatever arrives. An array access outside the
  array is undefined in C++; the theorems about \<^verbatim>\<open>update\<close> assume that the count does
  not exceed the size of the array (\<open>in_bounds\<close> below), and the parser is shown to keep
  it so.
\<close>

type_synonym u8 = "8 word"
type_synonym u32 = "32 word"

subsection \<open>Constants of RemoteControl.cpp and RemoteControl.h\<close>

definition SYNC_MARKER :: int where "SYNC_MARKER = 0xAA"
definition SYNC_TYPE :: int where "SYNC_TYPE = 0x01"
definition SYNC_PACKET_SIZE :: int where "SYNC_PACKET_SIZE = 6"
definition COMMAND_MARKER :: int where "COMMAND_MARKER = 0xBB"
definition COMMAND_PACKET_SIZE :: int where "COMMAND_PACKET_SIZE = 7"
definition GET_TIME_MARKER :: int where "GET_TIME_MARKER = 0xCC"
definition GET_TIME_PACKET_SIZE :: int where "GET_TIME_PACKET_SIZE = 1"
definition END_MARKER :: int where "END_MARKER = 0xDD"
definition END_PACKET_SIZE :: int where "END_PACKET_SIZE = 5"
definition STOP_MARKER :: int where "STOP_MARKER = 0xEE"
definition RESET_MARKER :: int where "RESET_MARKER = 0xEF"
definition MAX_RESET_SERVOS :: int where "MAX_RESET_SERVOS = 18"
definition MAX_COMMANDS :: int where "MAX_COMMANDS = 1"

text \<open>From ServoControl.h: the number of logical servos the driver knows.\<close>

definition MAX_SERVOS :: int where "MAX_SERVOS = 18"

lemmas wire_defs =
  SYNC_MARKER_def SYNC_TYPE_def SYNC_PACKET_SIZE_def COMMAND_MARKER_def
  COMMAND_PACKET_SIZE_def GET_TIME_MARKER_def GET_TIME_PACKET_SIZE_def END_MARKER_def
  END_PACKET_SIZE_def STOP_MARKER_def RESET_MARKER_def MAX_RESET_SERVOS_def

subsection \<open>Data\<close>

text \<open>\<^verbatim>\<open>struct Command\<close>: two bytes and an unsigned 32-bit delay.\<close>

record Command =
  targetIndex :: u8
  angle :: u8
  relativeDelay :: u32

text \<open>
  The private fields of \<^verbatim>\<open>RemoteControl\<close>. \<open>commandBuffer\<close> is the array (all of its
  slots, also the ones at and beyond \<open>commandCount\<close>, which hold stale values);
  \<open>commandCount\<close> is the C \<^verbatim>\<open>int\<close> counting the slots in use.
\<close>

record RemoteControl =
  commandBuffer :: "Command list"
  commandCount :: int
  syncReceived :: bool
  syncStartTime :: u32
  debugEnabled :: bool

datatype action =
    SerialPrint string          \<comment> \<open>\<^verbatim>\<open>Serial.print\<close> of a text\<close>
  | SerialPrintln string        \<comment> \<open>\<^verbatim>\<open>Serial.println\<close> of a text\<close>
  | SerialPrintNum int          \<comment> \<open>\<^verbatim>\<open>Serial.print\<close> of a number\<close>
  | SerialPrintlnNum int        \<comment> \<open>\<^verbatim>\<open>Serial.println\<close> of a number\<close>
  | SerialPrintlnPulse int      \<comment> \<open>\<^verbatim>\<open>Serial.println(angleToPulse(a))\<close>, the driver's pulse for angle a\<close>
  | ServoAngle int int          \<comment> \<open>\<^verbatim>\<open>setServoAngle(servoIndex, angle)\<close>\<close>
  | Delay int                   \<comment> \<open>\<^verbatim>\<open>delay(ms)\<close>\<close>

subsection \<open>The serial receive buffer\<close>

definition Serial_available :: "u8 list \<Rightarrow> int" where
  "Serial_available rx = int (length rx)"

text \<open>\<^verbatim>\<open>Serial.peek()\<close> and \<^verbatim>\<open>Serial.read()\<close> return an \<^verbatim>\<open>int\<close>: the byte, or -1 when
  nothing is there.\<close>

definition Serial_peek :: "u8 list \<Rightarrow> int" where
  "Serial_peek rx = (case rx of [] \<Rightarrow> - 1 | b # _ \<Rightarrow> uint b)"

definition Serial_read :: "u8 list \<Rightarrow> int \<times> u8 list" where
  "Serial_read rx = (case rx of [] \<Rightarrow> (- 1, []) | b # rest \<Rightarrow> (uint b, rest))"

subsection \<open>The constructor\<close>

text \<open>The constructor sets the count, the flag and the baseline; the array of
  \<^verbatim>\<open>MAX_COMMANDS\<close> slots is left as it is (\<open>slots\<close>).\<close>

definition RemoteControl_init :: "Command list \<Rightarrow> RemoteControl" where
  "RemoteControl_init slots =
     \<lparr>commandBuffer = slots, commandCount = 0, syncReceived = False,
      syncStartTime = 0, debugEnabled = False\<rparr>"

subsection \<open>errorHandler\<close>

text \<open>
  \<^verbatim>\<open>errorHandler\<close> prints the message once and then enters \<^verbatim>\<open>while (true)\<close>, whose body
  waits a second and prints the message again; the body has no \<^verbatim>\<open>break\<close> and no
  \<^verbatim>\<open>return\<close>. \<open>errorHandler_entry\<close> is what happens before the loop,
  \<open>errorHandler_body\<close> one turn of the loop.
\<close>

definition errorHandler_entry :: "string \<Rightarrow> action list" where
  "errorHandler_entry msg = [SerialPrint ''RemoteControl ERROR: '', SerialPrintln msg]"

definition errorHandler_body :: "string \<Rightarrow> action list" where
  "errorHandler_body msg =
     [Delay 1000, SerialPrint ''RemoteControl ERROR: '', SerialPrintln msg]"

subsection \<open>parseSerialData\<close>

text \<open>The \<^verbatim>\<open>for\<close> loop of the RESET branch: two reads per servo, high byte first,
  the pair cast to \<^verbatim>\<open>int16_t\<close> and handed to the driver as an \<^verbatim>\<open>int\<close>. The cast keeps
  the low 16 bits of \<^verbatim>\<open>(hi << 8) | lo\<close>, whatever the width of \<^verbatim>\<open>int\<close> on the board.\<close>

function resetLoop :: "int \<Rightarrow> u8 list \<Rightarrow> u8 list \<times> action list" where
  "resetLoop idx rx =
     (if idx < MAX_RESET_SERVOS then
        (let (hi, rx1) = Serial_read rx;
             (lo, rx2) = Serial_read rx1;
             angle = (word_of_int (push_bit 8 hi OR lo) :: 16 word);
             (rx', acts) = resetLoop (idx + 1) rx2
         in (rx', ServoAngle idx (sint angle) # acts))
      else (rx, []))"
  by pat_completeness auto
termination
  by (relation "measure (\<lambda>(idx, rx). nat (MAX_RESET_SERVOS - idx))") auto

declare resetLoop.simps [simp del]

text \<open>
  One turn of the \<^verbatim>\<open>while (Serial.available() > 0)\<close> loop. Every branch of the source
  ends the turn in one of three ways: \<^verbatim>\<open>continue\<close> after reading a packet (\<open>Consumed\<close>),
  \<^verbatim>\<open>break\<close> (\<open>Stalled\<close>), or the call of \<^verbatim>\<open>errorHandler\<close>, from which control never
  comes back (\<open>Fatal\<close>).
\<close>

datatype turn =
    Consumed RemoteControl "u8 list" "action list"
  | Stalled
  | Fatal "u8 list" "action list" string

definition parseTurn :: "u32 \<Rightarrow> RemoteControl \<Rightarrow> u8 list \<Rightarrow> turn" where
  "parseTurn now s rx =
    (let avail = Serial_available rx;
         marker = Serial_peek rx
     in
     if marker = STOP_MARKER \<and> avail \<ge> 1 then
       (let (_, rx1) = Serial_read rx
        in Consumed (s\<lparr>commandCount := 0, syncReceived := False\<rparr>) rx1
             [SerialPrintln ''STOPPED''])
     else if marker = RESET_MARKER \<and> avail \<ge> 1 + MAX_RESET_SERVOS * 2 then
       (let (_, rx1) = Serial_read rx;
            (rx2, acts) = resetLoop 0 rx1
        in Consumed s rx2
             (acts
              @ (if debugEnabled s
                 then [SerialPrintln ''RemoteControl: Servos RESET to dynamic angles.'']
                 else [])
              @ [SerialPrintln ''RESET_DONE'']))
     else if marker = COMMAND_MARKER \<and> avail \<ge> COMMAND_PACKET_SIZE then
       (let (_, rx1) = Serial_read rx;
            (t, rx2) = Serial_read rx1;
            (a, rx3) = Serial_read rx2;
            (r0, rx4) = Serial_read rx3;
            (r1, rx5) = Serial_read rx4;
            (r2, rx6) = Serial_read rx5;
            (r3, rx7) = Serial_read rx6;
            d0 = (word_of_int r0 :: u32);
            d1 = (word_of_int r1 :: u32);
            d2 = (word_of_int r2 :: u32);
            d3 = (word_of_int r3 :: u32);
            cmd = \<lparr>targetIndex = word_of_int t, angle = word_of_int a,
                   relativeDelay = d0 OR push_bit 8 d1 OR push_bit 16 d2 OR push_bit 24 d3\<rparr>
        in
        if commandCount s < MAX_COMMANDS then
          Consumed (s\<lparr>commandBuffer := (commandBuffer s)[nat (commandCount s) := cmd],
                      commandCount := commandCount s + 1\<rparr>) rx7
            (if debugEnabled s
             then [SerialPrint ''RemoteControl: Buffered PICK T='',
                   SerialPrintNum (uint (targetIndex cmd)),
                   SerialPrint '' A='',
                   SerialPrintNum (uint (angle cmd)),
                   SerialPrint '' D='',
                   SerialPrintNum (uint (relativeDelay cmd)),
                   SerialPrintln ''ms'']
             else [])
        else Consumed s rx7 [SerialPrintln ''ERROR: command buffer full''])
     else if marker = END_MARKER \<and> avail \<ge> END_PACKET_SIZE then
       (let (_, rx1) = Serial_read rx;
            (r0, rx2) = Serial_read rx1;
            (r1, rx3) = Serial_read rx2;
            (r2, rx4) = Serial_read rx3;
            (r3, rx5) = Serial_read rx4;
            d0 = (word_of_int r0 :: u32);
            d1 = (word_of_int r1 :: u32);
            d2 = (word_of_int r2 :: u32);
            d3 = (word_of_int r3 :: u32);
            rel = d0 OR push_bit 8 d1 OR push_bit 16 d2 OR push_bit 24 d3
        in
        if commandCount s < MAX_COMMANDS then
          (let cmd = \<lparr>targetIndex = 255, angle = 0, relativeDelay = rel\<rparr>
           in Consumed (s\<lparr>commandBuffer := (commandBuffer s)[nat (commandCount s) := cmd],
                         commandCount := commandCount s + 1\<rparr>) rx5 [])
        else Consumed s rx5 [])
     else if marker = GET_TIME_MARKER \<and> avail \<ge> GET_TIME_PACKET_SIZE then
       (let (_, rx1) = Serial_read rx
        in Consumed s rx1 [SerialPrint ''TIME:'', SerialPrintlnNum (uint now)])
     else if marker = SYNC_MARKER \<and> avail \<ge> SYNC_PACKET_SIZE then
       (let (_, rx1) = Serial_read rx;
            (type, rx2) = Serial_read rx1
        in
        if type \<noteq> SYNC_TYPE then
          Fatal rx2 (errorHandler_entry ''Unexpected sync packet type'')
            ''Unexpected sync packet type''
        else
          (let t0 = (0 :: u32);
               (b0, rx3) = Serial_read rx2;
               t1 = t0 OR push_bit 24 (word_of_int b0);
               (b1, rx4) = Serial_read rx3;
               t2 = t1 OR push_bit 16 (word_of_int b1);
               (b2, rx5) = Serial_read rx4;
               t3 = t2 OR push_bit 8 (word_of_int b2);
               (b3, rx6) = Serial_read rx5;
               t = t3 OR word_of_int b3
           in Consumed (s\<lparr>syncStartTime := t, syncReceived := True, commandCount := 0\<rparr>) rx6
                (if debugEnabled s
                 then [SerialPrint ''RemoteControl: Sync at '', SerialPrintlnNum (uint t)]
                 else [])))
     else Stalled)"


text \<open>
  The loop itself. \<open>Inl msg\<close> says that control is inside \<^verbatim>\<open>errorHandler(msg)\<close> and stays
  there; \<open>Inr s\<close> that \<^verbatim>\<open>parseSerialData\<close> returned with the fields \<open>s\<close>. The second
  component is what is left in the receive buffer, the third what was done on the way.
\<close>

lemma Serial_read_shorter:
  "rx \<noteq> [] \<Longrightarrow> Serial_read rx = (v, rx') \<Longrightarrow> length rx' < length rx"
  by (cases rx) (auto simp: Serial_read_def)

lemma Serial_read_le:
  "Serial_read rx = (v, rx') \<Longrightarrow> length rx' \<le> length rx"
  by (cases rx) (auto simp: Serial_read_def)

lemma resetLoop_le:
  "resetLoop idx rx = (rx', acts) \<Longrightarrow> length rx' \<le> length rx"
proof (induction idx rx arbitrary: rx' acts rule: resetLoop.induct)
  case (1 idx rx)
  show ?case
  proof (cases "idx < MAX_RESET_SERVOS")
    case False
    with "1.prems" show ?thesis by (subst (asm) resetLoop.simps) simp
  next
    case True
    obtain hi rx1 where r1: "Serial_read rx = (hi, rx1)" by (cases "Serial_read rx")
    obtain lo rx2 where r2: "Serial_read rx1 = (lo, rx2)" by (cases "Serial_read rx1")
    obtain rx3 acts3 where r3: "resetLoop (idx + 1) rx2 = (rx3, acts3)"
      by (cases "resetLoop (idx + 1) rx2")
    from "1.prems" True r1 r2 r3 have "rx' = rx3"
      by (subst (asm) resetLoop.simps) simp
    moreover have "length rx3 \<le> length rx2"
      using "1.IH" [OF True r1 [symmetric] refl r2 [symmetric] refl refl r3] .
    ultimately show ?thesis
      using Serial_read_le [OF r1] Serial_read_le [OF r2] by simp
  qed
qed

lemma read_keeps_bound:
  "length rx \<le> n \<Longrightarrow> length (snd (Serial_read rx)) \<le> n"
  by (cases rx) (auto simp: Serial_read_def)

lemma resetLoop_keeps_bound:
  "length rx \<le> n \<Longrightarrow> length (fst (resetLoop idx rx)) \<le> n"
  using resetLoop_le [of idx rx] by (cases "resetLoop idx rx") auto

lemma parseTurn_shorter:
  assumes "rx \<noteq> []" and "parseTurn now s rx = Consumed s' rx' acts"
  shows "length rx' < length rx"
proof -
  obtain b rest where rx: "rx = b # rest" using assms(1) by (cases rx) auto
  have first: "Serial_read (b # rest) = (uint b, rest)" by (simp add: Serial_read_def)
  have "length rx' \<le> length rest"
    using assms(2) unfolding rx parseTurn_def Let_def case_prod_beta first fst_conv snd_conv
    by (auto split: if_splits intro!: read_keeps_bound resetLoop_keeps_bound)
  then show ?thesis by (simp add: rx)
qed

function parseSerialData ::
  "u32 \<Rightarrow> RemoteControl \<Rightarrow> u8 list \<Rightarrow> (string + RemoteControl) \<times> u8 list \<times> action list"
where
  "parseSerialData now s rx =
     (if Serial_available rx > 0 then
        (case parseTurn now s rx of
           Consumed s' rx' acts \<Rightarrow>
             (let (r, rx'', acts') = parseSerialData now s' rx' in (r, rx'', acts @ acts'))
         | Stalled \<Rightarrow> (Inr s, rx, [])
         | Fatal rx' acts msg \<Rightarrow> (Inl msg, rx', acts))
      else (Inr s, rx, []))"
  by pat_completeness auto
termination
proof (relation "measure (\<lambda>(now, s, rx). length rx)")
  show "wf (measure (\<lambda>(now, s, rx). length rx))" by simp
next
  fix now :: u32 and s s' :: RemoteControl and rx rx' :: "u8 list" and acts :: "action list"
  assume "0 < Serial_available rx" and "parseTurn now s rx = Consumed s' rx' acts"
  then show "((now, s', rx'), (now, s, rx)) \<in> measure (\<lambda>(now, s, rx). length rx)"
    using parseTurn_shorter [of rx now s s' rx' acts] by (auto simp: Serial_available_def)
qed

declare parseSerialData.simps [simp del]

subsection \<open>update\<close>

text \<open>The inner \<^verbatim>\<open>for\<close> loop of \<^verbatim>\<open>update\<close>: slot \<open>j\<close> takes the value of slot \<open>j + 1\<close>, for
  \<open>j\<close> from the removed position up to \<open>commandCount - 2\<close>.\<close>

function shiftLeft :: "int \<Rightarrow> int \<Rightarrow> Command list \<Rightarrow> Command list" where
  "shiftLeft j n buf =
     (if j < n - 1 then shiftLeft (j + 1) n (buf[nat j := buf ! nat (j + 1)]) else buf)"
  by pat_completeness auto
termination
  by (relation "measure (\<lambda>(j, n, buf). nat (n - 1 - j))") auto

declare shiftLeft.simps [simp del]

text \<open>What one due entry makes the scheduler do, before the entry is removed: the
  end-of-song marker prints \<^verbatim>\<open>DONE\<close> and clears the flag, any other entry calls the
  driver (after a debug line, if enabled).\<close>

definition fire :: "RemoteControl \<Rightarrow> Command \<Rightarrow> RemoteControl \<times> action list" where
  "fire s c =
     (if targetIndex c = 255 then
        (s\<lparr>syncReceived := False\<rparr>, [SerialPrintln ''DONE''])
      else
        (s, (if debugEnabled s
             then [SerialPrint ''Executing PICK: index='',
                   SerialPrintNum (uint (targetIndex c)),
                   SerialPrint '' angle='',
                   SerialPrintNum (uint (angle c)),
                   SerialPrint '' pulse='',
                   SerialPrintlnPulse (uint (angle c))]
             else [])
            @ [ServoAngle (uint (targetIndex c)) (uint (angle c))]))"

lemma fire_count [simp]: "commandCount (fst (fire s c)) = commandCount s"
  by (simp add: fire_def)

text \<open>The \<^verbatim>\<open>while (i < commandCount)\<close> loop. \<open>execTime\<close> is an \<^verbatim>\<open>unsigned long\<close> sum:
  it wraps at \<open>2 ^ 32\<close>, as \<open>+\<close> on \<open>u32\<close> does.\<close>

function updateLoop :: "u32 \<Rightarrow> int \<Rightarrow> RemoteControl \<Rightarrow> RemoteControl \<times> action list" where
  "updateLoop now i s =
     (if i < commandCount s then
        (let execTime = syncStartTime s + relativeDelay (commandBuffer s ! nat i)
         in if now \<ge> execTime then
              (let s1 = fst (fire s (commandBuffer s ! nat i));
                   acts = snd (fire s (commandBuffer s ! nat i));
                   s2 = s1\<lparr>commandBuffer := shiftLeft i (commandCount s1) (commandBuffer s1)\<rparr>;
                   s3 = s2\<lparr>commandCount := commandCount s2 - 1\<rparr>;
                   (s', acts') = updateLoop now i s3
               in (s', acts @ acts'))
            else updateLoop now (i + 1) s)
      else (s, []))"
  by pat_completeness auto
termination
  by (relation "measure (\<lambda>(now, i, s). nat (commandCount s - i))") auto

declare updateLoop.simps [simp del]

definition update :: "u32 \<Rightarrow> RemoteControl \<Rightarrow> RemoteControl \<times> action list" where
  "update now s = (if \<not> syncReceived s then (s, []) else updateLoop now 0 s)"

subsection \<open>handle, and the firmware around it\<close>

text \<open>\<^verbatim>\<open>handle\<close> calls \<^verbatim>\<open>parseSerialData\<close> and then \<^verbatim>\<open>update\<close>; when the parser has gone
  into \<^verbatim>\<open>errorHandler\<close>, \<^verbatim>\<open>update\<close> is never reached.\<close>

definition handle ::
  "u32 \<Rightarrow> RemoteControl \<Rightarrow> u8 list \<Rightarrow> (string + RemoteControl) \<times> u8 list \<times> action list"
where
  "handle now s rx =
     (case parseSerialData now s rx of
        (Inl msg, rx', acts) \<Rightarrow> (Inl msg, rx', acts)
      | (Inr s', rx', acts) \<Rightarrow>
          (let (s'', acts') = update now s' in (Inr s'', rx', acts @ acts')))"

text \<open>
  The processor is either between two calls of \<^verbatim>\<open>handle\<close> (\<open>Running\<close>, with the fields
  of the object) or inside the \<^verbatim>\<open>while (true)\<close> of \<^verbatim>\<open>errorHandler\<close> (\<open>Halted\<close>, with the
  message). One \<open>cycle\<close> lets the bytes \<open>arrived\<close> enter the receive buffer and then runs
  one call of \<^verbatim>\<open>handle\<close>, or one turn of the error loop.
\<close>

datatype control = Running RemoteControl | Halted string

fun cycle ::
  "u8 list \<times> u32 \<Rightarrow> control \<times> u8 list \<Rightarrow> (control \<times> u8 list) \<times> action list"
where
  "cycle (arrived, now) (Running s, rx) =
     (case handle now s (rx @ arrived) of
        (Inl msg, rx', acts) \<Rightarrow> ((Halted msg, rx'), acts)
      | (Inr s', rx', acts) \<Rightarrow> ((Running s', rx'), acts))"
| "cycle (arrived, now) (Halted msg, rx) =
     ((Halted msg, rx @ arrived), errorHandler_body msg)"

fun cycles ::
  "(u8 list \<times> u32) list \<Rightarrow> control \<times> u8 list \<Rightarrow> (control \<times> u8 list) \<times> action list"
where
  "cycles [] c = (c, [])"
| "cycles (e # es) c =
     (let (c', acts) = cycle e c; (c'', acts') = cycles es c' in (c'', acts @ acts'))"


subsection \<open>Reading the state, and the wire format in the spec's words\<close>

text \<open>The entries in use: the first \<open>commandCount\<close> slots of the array, in slot order.\<close>

definition pending :: "RemoteControl \<Rightarrow> Command list" where
  "pending s = take (nat (commandCount s)) (commandBuffer s)"

text \<open>The test \<^verbatim>\<open>now >= execTime\<close> of \<^verbatim>\<open>update\<close> for one entry, with
  \<^verbatim>\<open>execTime = syncStartTime + relativeDelay\<close> in unsigned 32-bit arithmetic.\<close>

definition due :: "u32 \<Rightarrow> u32 \<Rightarrow> Command \<Rightarrow> bool" where
  "due now baseline c = (baseline + relativeDelay c \<le> now)"

text \<open>The array indices the code touches stay inside the array.\<close>

definition in_bounds :: "RemoteControl \<Rightarrow> bool" where
  "in_bounds s = (0 \<le> commandCount s \<and> commandCount s \<le> int (length (commandBuffer s)))"

text \<open>The object as the header declares it: an array of \<^verbatim>\<open>MAX_COMMANDS\<close> slots, and a
  count between 0 and \<^verbatim>\<open>MAX_COMMANDS\<close>.\<close>

definition well_formed :: "RemoteControl \<Rightarrow> bool" where
  "well_formed s =
     (int (length (commandBuffer s)) = MAX_COMMANDS \<and> 0 \<le> commandCount s
      \<and> commandCount s \<le> MAX_COMMANDS)"

text \<open>Byte orders as the spec words them: little-endian has the first byte least
  significant, big-endian has it most significant; a signed 16-bit value is read in
  two's complement.\<close>

definition le32 :: "u8 \<Rightarrow> u8 \<Rightarrow> u8 \<Rightarrow> u8 \<Rightarrow> nat" where
  "le32 b0 b1 b2 b3 = unat b0 + 256 * unat b1 + 65536 * unat b2 + 16777216 * unat b3"

definition be32 :: "u8 \<Rightarrow> u8 \<Rightarrow> u8 \<Rightarrow> u8 \<Rightarrow> nat" where
  "be32 b0 b1 b2 b3 = 16777216 * unat b0 + 65536 * unat b1 + 256 * unat b2 + unat b3"

definition be16_signed :: "u8 \<Rightarrow> u8 \<Rightarrow> int" where
  "be16_signed hi lo =
     (let v = 256 * uint hi + uint lo in if v < 32768 then v else v - 65536)"


text \<open>The driver calls among a list of actions, as pairs (servoIndex, angle), in order.\<close>

fun servo_calls :: "action list \<Rightarrow> (int \<times> int) list" where
  "servo_calls [] = []"
| "servo_calls (ServoAngle i a # acts) = (i, a) # servo_calls acts"
| "servo_calls (_ # acts) = servo_calls acts"

text \<open>The table of the wire protocol: the total size of the packet that a peeked marker
  byte announces, if the marker is one of the six known ones.\<close>

definition packet_size :: "int \<Rightarrow> int option" where
  "packet_size marker =
     (if marker = STOP_MARKER then Some 1
      else if marker = RESET_MARKER then Some (1 + MAX_RESET_SERVOS * 2)
      else if marker = COMMAND_MARKER then Some COMMAND_PACKET_SIZE
      else if marker = END_MARKER then Some END_PACKET_SIZE
      else if marker = GET_TIME_MARKER then Some GET_TIME_PACKET_SIZE
      else if marker = SYNC_MARKER then Some SYNC_PACKET_SIZE
      else None)"

subsection \<open>States used as examples\<close>

text \<open>The example of the spec: after SYNC at 1000, one PICK for servo 3, angle 90, delay
  500.\<close>

definition spec_example :: RemoteControl where
  "spec_example =
     \<lparr>commandBuffer = [\<lparr>targetIndex = 3, angle = 90, relativeDelay = 500\<rparr>],
      commandCount = 1, syncReceived = True, syncStartTime = 1000, debugEnabled = False\<rparr>"

text \<open>An array of three slots, all in use; the entries in slots 1 and 2 fall due before
  the one in slot 0.\<close>

definition three_pending :: RemoteControl where
  "three_pending =
     \<lparr>commandBuffer = [\<lparr>targetIndex = 1, angle = 10, relativeDelay = 900\<rparr>,
                       \<lparr>targetIndex = 2, angle = 20, relativeDelay = 100\<rparr>,
                       \<lparr>targetIndex = 3, angle = 30, relativeDelay = 100\<rparr>],
      commandCount = 3, syncReceived = True, syncStartTime = 1000, debugEnabled = False\<rparr>"


text \<open>One slot, in use, holding a command buffered under the baseline 5.\<close>

definition stale_example :: RemoteControl where
  "stale_example =
     \<lparr>commandBuffer = [\<lparr>targetIndex = 7, angle = 45, relativeDelay = 0\<rparr>],
      commandCount = 1, syncReceived = True, syncStartTime = 5, debugEnabled = False\<rparr>"

text \<open>The payload of a RESET packet: 18 angles, among them 90, -1, -32768 and 300.\<close>

definition reset_example :: "u8 list" where
  "reset_example =
     [0, 90, 255, 255, 128, 0, 0, 0, 0, 0, 0, 0, 0, 0, 0, 0, 0, 0,
      0, 0, 0, 0, 0, 0, 0, 0, 0, 0, 0, 0, 0, 0, 0, 0, 1, 44]"

text \<open>The object right after its constructor, with some value in its one slot.\<close>

definition fresh :: RemoteControl where
  "fresh = RemoteControl_init [\<lparr>targetIndex = 0, angle = 0, relativeDelay = 0\<rparr>]"

section \<open>Single packets\<close>

lemma Serial_read_Cons [simp]: "Serial_read (b # rest) = (uint b, rest)"
  by (simp add: Serial_read_def)

lemma Serial_peek_Cons [simp]: "Serial_peek (b # rest) = uint b"
  by (simp add: Serial_peek_def)

lemma Serial_available_Cons [simp]: "Serial_available (b # rest) = 1 + int (length rest)"
  by (simp add: Serial_available_def)

lemma parseTurn_STOP:
  "parseTurn now s (0xEE # rest) =
     Consumed (s\<lparr>commandCount := 0, syncReceived := False\<rparr>) rest [SerialPrintln ''STOPPED'']"
  by (simp add: parseTurn_def wire_defs)

lemma parseTurn_GET_TIME:
  "parseTurn now s (0xCC # rest) =
     Consumed s rest [SerialPrint ''TIME:'', SerialPrintlnNum (uint now)]"
  by (simp add: parseTurn_def wire_defs)

lemma parseTurn_PICK:
  "parseTurn now s (0xBB # t # a # d0 # d1 # d2 # d3 # rest) =
     (let cmd = \<lparr>targetIndex = t, angle = a,
                  relativeDelay = ucast d0 OR push_bit 8 (ucast d1) OR push_bit 16 (ucast d2)
                                   OR push_bit 24 (ucast d3)\<rparr>
      in if commandCount s < MAX_COMMANDS then
           Consumed (s\<lparr>commandBuffer := (commandBuffer s)[nat (commandCount s) := cmd],
                       commandCount := commandCount s + 1\<rparr>) rest
             (if debugEnabled s
              then [SerialPrint ''RemoteControl: Buffered PICK T='',
                    SerialPrintNum (uint t), SerialPrint '' A='', SerialPrintNum (uint a),
                    SerialPrint '' D='', SerialPrintNum (uint (relativeDelay cmd)),
                    SerialPrintln ''ms'']
              else [])
         else Consumed s rest [SerialPrintln ''ERROR: command buffer full''])"
  by (simp add: parseTurn_def wire_defs Let_def)

lemma parseTurn_END:
  "parseTurn now s (0xDD # d0 # d1 # d2 # d3 # rest) =
     (let cmd = \<lparr>targetIndex = 255, angle = 0,
                  relativeDelay = ucast d0 OR push_bit 8 (ucast d1) OR push_bit 16 (ucast d2)
                                   OR push_bit 24 (ucast d3)\<rparr>
      in if commandCount s < MAX_COMMANDS then
           Consumed (s\<lparr>commandBuffer := (commandBuffer s)[nat (commandCount s) := cmd],
                       commandCount := commandCount s + 1\<rparr>) rest []
         else Consumed s rest [])"
  by (simp add: parseTurn_def wire_defs Let_def)

lemma parseTurn_SYNC:
  "parseTurn now s (0xAA # 1 # b0 # b1 # b2 # b3 # rest) =
     (let t = ((push_bit 24 (ucast b0) OR push_bit 16 (ucast b1)) OR push_bit 8 (ucast b2))
                OR ucast b3
      in Consumed (s\<lparr>syncStartTime := t, syncReceived := True, commandCount := 0\<rparr>) rest
           (if debugEnabled s
            then [SerialPrint ''RemoteControl: Sync at '', SerialPrintlnNum (uint t)]
            else []))"
  by (simp add: parseTurn_def wire_defs Let_def)

lemma uint_u8_eq_iff: "0 \<le> k \<Longrightarrow> k < 256 \<Longrightarrow> (uint (b::u8) = k) = (b = word_of_int k)"
proof
  assume "uint b = k"
  then show "b = word_of_int k" by (metis word_of_int_uint)
next
  assume b: "b = word_of_int k" and k: "0 \<le> k" "k < 256"
  show "uint b = k" unfolding b using k by (simp add: uint_word_of_int)
qed

lemma parseTurn_SYNC_bad:
  "ty \<noteq> 1 \<Longrightarrow>
   parseTurn now s (0xAA # ty # b0 # b1 # b2 # b3 # rest) =
     Fatal (b0 # b1 # b2 # b3 # rest) (errorHandler_entry ''Unexpected sync packet type'')
       ''Unexpected sync packet type''"
  by (simp add: parseTurn_def wire_defs Let_def uint_u8_eq_iff)

lemma parseTurn_unknown:
  "b \<notin> {0xEE, 0xEF, 0xBB, 0xDD, 0xCC, 0xAA} \<Longrightarrow> parseTurn now s (b # rest) = Stalled"
  by (simp add: parseTurn_def wire_defs Let_def uint_u8_eq_iff)

lemma parseTurn_short_RESET:
  "length rest < 36 \<Longrightarrow> parseTurn now s (0xEF # rest) = Stalled"
  by (simp add: parseTurn_def wire_defs Let_def)

lemma parseTurn_short_PICK:
  "length rest < 6 \<Longrightarrow> parseTurn now s (0xBB # rest) = Stalled"
  by (simp add: parseTurn_def wire_defs Let_def)

lemma parseTurn_short_END:
  "length rest < 4 \<Longrightarrow> parseTurn now s (0xDD # rest) = Stalled"
  by (simp add: parseTurn_def wire_defs Let_def)

lemma parseTurn_short_SYNC:
  "length rest < 5 \<Longrightarrow> parseTurn now s (0xAA # rest) = Stalled"
  by (simp add: parseTurn_def wire_defs Let_def)

lemma or_push_int: "0 \<le> x \<Longrightarrow> x < 2 ^ n \<Longrightarrow> x OR push_bit n y = x + 2 ^ n * (y::int)"
  using concat_bit_eq [of n x y]
  by (simp add: concat_bit_def take_bit_int_eq_self push_bit_eq_mult mult.commute)

lemma reset_angle_decode:
  "sint (word_of_int (push_bit 8 (uint (hi::u8)) OR uint (lo::u8)) :: 16 word) = be16_signed hi lo"
proof -
  have lo: "0 \<le> uint lo" "uint lo < 2 ^ 8" using uint_lt2p [of lo] by simp_all
  have hi: "0 \<le> uint hi" "uint hi < 256" using uint_lt2p [of hi] by simp_all
  define v where "v = 256 * uint hi + uint lo"
  have v: "push_bit 8 (uint hi) OR uint lo = v"
    using or_push_int [OF lo, of "uint hi"] by (simp add: or.commute v_def)
  have range: "0 \<le> v" "v < 65536" using lo hi by (simp_all add: v_def)
  have "(v + 32768) mod 65536 - 32768 = (if v < 32768 then v else v - 65536)"
  proof (cases "v < 32768")
    case True
    then have "(v + 32768) mod 65536 = v + 32768"
      using range by (intro mod_pos_pos_trivial) simp_all
    with True show ?thesis by simp
  next
    case False
    have "(v + 32768) mod 65536 = ((v - 32768) + 65536) mod 65536"
      by (rule arg_cong [where f = "\<lambda>x. x mod 65536"]) simp
    also have "\<dots> = (v - 32768) mod 65536" by (rule mod_add_self2)
    also have "\<dots> = v - 32768"
      using range False by (intro mod_pos_pos_trivial) simp_all
    finally show ?thesis using False by simp
  qed
  then show ?thesis
    unfolding v be16_signed_def Let_def int_word_sint v_def [symmetric] by simp
qed

lemma resetLoop_servos:
  assumes "idx = MAX_RESET_SERVOS - int n" and "n \<le> 18" and "2 * n \<le> length rx"
  shows "resetLoop idx rx =
           (drop (2 * n) rx,
            map (\<lambda>k. ServoAngle (idx + int k) (be16_signed (rx ! (2 * k)) (rx ! (2 * k + 1))))
              [0..<n])"
  using assms
proof (induction n arbitrary: idx rx)
  case 0
  then show ?case by (subst resetLoop.simps) simp
next
  case (Suc n)
  from Suc.prems obtain hi lo rx2 where rx: "rx = hi # lo # rx2"
    by (cases rx; cases "tl rx") auto
  have lt: "idx < MAX_RESET_SERVOS" using Suc.prems by simp
  let ?tail = "map (\<lambda>k. ServoAngle (idx + 1 + int k)
                      (be16_signed (rx2 ! (2 * k)) (rx2 ! (2 * k + 1)))) [0..<n]"
  have IH: "resetLoop (idx + 1) rx2 = (drop (2 * n) rx2, ?tail)"
    using Suc.prems rx by (intro Suc.IH) auto
  have step: "resetLoop idx rx = (drop (2 * n) rx2, ServoAngle idx (be16_signed hi lo) # ?tail)"
    by (subst resetLoop.simps) (simp add: lt rx IH reset_angle_decode del: upt_Suc)
  have upt: "[0..<Suc n] = 0 # map Suc [0..<n]"
    by (simp add: upt_conv_Cons map_Suc_upt del: upt_Suc)
  have shift: "map (\<lambda>k. ServoAngle (idx + int k) (be16_signed (rx ! (2 * k)) (rx ! (2 * k + 1))))
                 [0..<Suc n]
       = ServoAngle idx (be16_signed hi lo) # ?tail"
    unfolding upt rx by (simp add: o_def algebra_simps del: upt_Suc)
  have "drop (2 * Suc n) rx = drop (2 * n) rx2" by (simp add: rx)
  with step shift show ?case by (simp only:)
qed

lemma parseTurn_RESET:
  assumes "length payload = 36"
  shows "parseTurn now s (0xEF # payload @ rest) =
     Consumed s rest
       (map (\<lambda>k. ServoAngle (int k) (be16_signed (payload ! (2 * k)) (payload ! (2 * k + 1))))
          [0..<18]
        @ (if debugEnabled s
           then [SerialPrintln ''RemoteControl: Servos RESET to dynamic angles.'']
           else [])
        @ [SerialPrintln ''RESET_DONE''])"
proof -
  have "resetLoop 0 (payload @ rest) =
     (drop 36 (payload @ rest),
      map (\<lambda>k. ServoAngle (0 + int k)
                 (be16_signed ((payload @ rest) ! (2 * k)) ((payload @ rest) ! (2 * k + 1))))
        [0..<18])"
    using resetLoop_servos [of 0 18 "payload @ rest"] assms by (simp add: MAX_RESET_SERVOS_def)
  moreover have "map (\<lambda>k. ServoAngle (0 + int k)
                 (be16_signed ((payload @ rest) ! (2 * k)) ((payload @ rest) ! (2 * k + 1))))
        [0..<18]
      = map (\<lambda>k. ServoAngle (int k) (be16_signed (payload ! (2 * k)) (payload ! (2 * k + 1))))
          [0..<18]"
    using assms by (intro map_cong) (auto simp: nth_append)
  ultimately show ?thesis
    using assms by (simp add: parseTurn_def wire_defs Let_def del: upt_Suc)
qed


lemma parseSerialData_Consumed:
  "parseTurn now s (b # rest) = Consumed s' rx' acts \<Longrightarrow>
   parseSerialData now s (b # rest) =
     (let (r, rx'', acts') = parseSerialData now s' rx' in (r, rx'', acts @ acts'))"
  by (subst parseSerialData.simps) simp

lemma parseSerialData_Stalled:
  "parseTurn now s rx = Stalled \<Longrightarrow> parseSerialData now s rx = (Inr s, rx, [])"
  by (subst parseSerialData.simps) simp

lemma parseSerialData_Fatal:
  "parseTurn now s (b # rest) = Fatal rx' acts msg \<Longrightarrow>
   parseSerialData now s (b # rest) = (Inl msg, rx', acts)"
  by (subst parseSerialData.simps) simp

lemma parseSerialData_Nil: "parseSerialData now s [] = (Inr s, [], [])"
  by (subst parseSerialData.simps) (simp add: Serial_available_def)

lemma update_inactive: "\<not> syncReceived s \<Longrightarrow> update now s = (s, [])"
  by (simp add: update_def)

section \<open>The scan of the scheduler\<close>

lemma shiftLeft_length [simp]: "length (shiftLeft j n buf) = length buf"
proof (induction j n buf rule: shiftLeft.induct)
  case (1 j n buf)
  then show ?case by (subst shiftLeft.simps) simp
qed

lemma shiftLeft_nth:
  "0 \<le> j \<Longrightarrow> n \<le> int (length buf) \<Longrightarrow> k < length buf \<Longrightarrow>
   shiftLeft j n buf ! k = (if nat j \<le> k \<and> int k < n - 1 then buf ! Suc k else buf ! k)"
proof (induction j n buf rule: shiftLeft.induct)
  case (1 j n buf)
  show ?case
  proof (cases "j < n - 1")
    case False
    have "shiftLeft j n buf = buf" using False by (subst shiftLeft.simps) simp
    moreover have "\<not> (nat j \<le> k \<and> int k < n - 1)" using False "1.prems" by linarith
    ultimately show ?thesis by auto
  next
    case True
    let ?buf = "buf[nat j := buf ! nat (j + 1)]"
    have unfold: "shiftLeft j n buf = shiftLeft (j + 1) n ?buf"
      using True by (subst shiftLeft.simps) simp
    have IH: "shiftLeft (j + 1) n ?buf ! k =
                (if nat (j + 1) \<le> k \<and> int k < n - 1 then ?buf ! Suc k else ?buf ! k)"
      using "1.IH" [OF True] "1.prems" by simp
    have j1: "nat (j + 1) = Suc (nat j)" using "1.prems" by simp
    have "shiftLeft j n buf ! k =
            (if Suc (nat j) \<le> k \<and> int k < n - 1 then ?buf ! Suc k else ?buf ! k)"
      using unfold IH j1 by simp
    also have "\<dots> = (if nat j \<le> k \<and> int k < n - 1 then buf ! Suc k else buf ! k)"
      using "1.prems" True by (auto simp: nth_list_update j1)
    finally show ?thesis .
  qed
qed

lemma shiftLeft_removes:
  assumes "0 \<le> i" and "i < n" and "n \<le> int (length buf)"
  shows "take (nat (n - 1)) (shiftLeft i n buf) =
           take (nat i) (take (nat n) buf) @ drop (Suc (nat i)) (take (nat n) buf)"
proof (rule nth_equalityI)
  show len: "length (take (nat (n - 1)) (shiftLeft i n buf)) =
        length (take (nat i) (take (nat n) buf) @ drop (Suc (nat i)) (take (nat n) buf))"
    using assms by auto
  fix k assume "k < length (take (nat (n - 1)) (shiftLeft i n buf))"
  then have k: "int k < n - 1" "k < length buf" using assms by auto
  have "take (nat (n - 1)) (shiftLeft i n buf) ! k = shiftLeft i n buf ! k"
    using k by simp
  also have "\<dots> = (if nat i \<le> k then buf ! Suc k else buf ! k)"
    using shiftLeft_nth [OF assms(1) assms(3) k(2)] k(1) by simp
  also have "\<dots> = (take (nat i) (take (nat n) buf) @ drop (Suc (nat i)) (take (nat n) buf)) ! k"
  proof (cases "nat i \<le> k")
    case False
    then show ?thesis using k assms by (simp add: nth_append)
  next
    case True
    have "drop (Suc (nat i)) (take (nat n) buf) ! (k - nat i) = take (nat n) buf ! (Suc (nat i) + (k - nat i))"
      using assms by (intro nth_drop) simp
    also have "\<dots> = buf ! Suc k" using True k assms by simp
    finally show ?thesis using True k assms by (simp add: nth_append)
  qed
  finally show "take (nat (n - 1)) (shiftLeft i n buf) ! k =
     (take (nat i) (take (nat n) buf) @ drop (Suc (nat i)) (take (nat n) buf)) ! k" .
qed


lemma fire_fields [simp]:
  "commandBuffer (fst (fire s c)) = commandBuffer s"
  "syncStartTime (fst (fire s c)) = syncStartTime s"
  "debugEnabled (fst (fire s c)) = debugEnabled s"
  "syncReceived (fst (fire s c)) = (syncReceived s \<and> targetIndex c \<noteq> 255)"
  by (simp_all add: fire_def)

lemma fire_acts_cong:
  "debugEnabled s = debugEnabled s' \<Longrightarrow> snd (fire s c) = snd (fire s' c)"
  by (simp add: fire_def)

lemma updateLoop_exit: "\<not> i < commandCount s \<Longrightarrow> updateLoop now i s = (s, [])"
  by (subst updateLoop.simps) simp

lemma updateLoop_skip:
  "i < commandCount s \<Longrightarrow> \<not> due now (syncStartTime s) (commandBuffer s ! nat i) \<Longrightarrow>
   updateLoop now i s = updateLoop now (i + 1) s"
  by (subst updateLoop.simps) (simp add: due_def)

lemma updateLoop_fire:
  "i < commandCount s \<Longrightarrow> due now (syncStartTime s) (commandBuffer s ! nat i) \<Longrightarrow>
   updateLoop now i s =
     (case updateLoop now i
             ((fst (fire s (commandBuffer s ! nat i)))
                \<lparr>commandBuffer := shiftLeft i (commandCount s) (commandBuffer s),
                 commandCount := commandCount s - 1\<rparr>) of
        (s', acts') \<Rightarrow> (s', snd (fire s (commandBuffer s ! nat i)) @ acts'))"
  by (subst updateLoop.simps) (simp add: due_def Let_def)

lemma updateLoop_post:
  "0 \<le> i \<Longrightarrow> i \<le> commandCount s \<Longrightarrow> commandCount s \<le> int (length (commandBuffer s)) \<Longrightarrow>
   (case updateLoop now i s of (s', acts) \<Rightarrow>
      pending s' = take (nat i) (pending s)
                   @ filter (\<lambda>c. \<not> due now (syncStartTime s) c) (drop (nat i) (pending s))
    \<and> acts = concat (map (\<lambda>c. snd (fire s c))
                      (filter (due now (syncStartTime s)) (drop (nat i) (pending s))))
    \<and> syncReceived s' =
        (syncReceived s
         \<and> (\<forall>c \<in> set (drop (nat i) (pending s)).
               due now (syncStartTime s) c \<longrightarrow> targetIndex c \<noteq> 255))
    \<and> syncStartTime s' = syncStartTime s \<and> debugEnabled s' = debugEnabled s
    \<and> length (commandBuffer s') = length (commandBuffer s)
    \<and> 0 \<le> commandCount s' \<and> commandCount s' \<le> int (length (commandBuffer s')))"
proof (induction now i s rule: updateLoop.induct)
  case (1 now i s)
  let ?P = "pending s"
  let ?k = "nat i"
  let ?c = "commandBuffer s ! nat i"
  show ?case
  proof (cases "i < commandCount s")
    case False
    then have "drop ?k ?P = []" using "1.prems" by (simp add: pending_def)
    then show ?thesis using False "1.prems" by (simp add: updateLoop_exit)
  next
    case inside: True
    have k: "?k < length ?P" using inside "1.prems" by (simp add: pending_def)
    have Pk: "?P ! ?k = ?c" using inside "1.prems" by (simp add: pending_def)
    have drop: "drop ?k ?P = ?c # drop (Suc ?k) ?P"
      using Cons_nth_drop_Suc [OF k] Pk by simp
    have take: "take (Suc ?k) ?P = take ?k ?P @ [?c]"
      using take_Suc_conv_app_nth [OF k] Pk by simp
    show ?thesis
    proof (cases "due now (syncStartTime s) ?c")
      case False
      have IH: "case updateLoop now (i + 1) s of (s', acts) \<Rightarrow>
          pending s' = take (nat (i + 1)) ?P
                       @ filter (\<lambda>c. \<not> due now (syncStartTime s) c) (drop (nat (i + 1)) ?P)
        \<and> acts = concat (map (\<lambda>c. snd (fire s c))
                          (filter (due now (syncStartTime s)) (drop (nat (i + 1)) ?P)))
        \<and> syncReceived s' =
            (syncReceived s
             \<and> (\<forall>c \<in> set (drop (nat (i + 1)) ?P).
                   due now (syncStartTime s) c \<longrightarrow> targetIndex c \<noteq> 255))
        \<and> syncStartTime s' = syncStartTime s \<and> debugEnabled s' = debugEnabled s
        \<and> length (commandBuffer s') = length (commandBuffer s)
        \<and> 0 \<le> commandCount s' \<and> commandCount s' \<le> int (length (commandBuffer s'))"
        using False inside "1.prems" by (intro "1.IH"(2)) (auto simp: due_def)
      have Suc: "nat (i + 1) = Suc ?k" using "1.prems" by simp
      show ?thesis
        using IH False unfolding updateLoop_skip [OF inside False] Suc
        by (auto simp: drop take split: prod.splits)
    next
      case True
      define s3 where "s3 = (fst (fire s ?c))
                \<lparr>commandBuffer := shiftLeft i (commandCount s) (commandBuffer s),
                 commandCount := commandCount s - 1\<rparr>"
      have P3: "pending s3 = take ?k ?P @ drop (Suc ?k) ?P"
        using shiftLeft_removes [of i "commandCount s" "commandBuffer s"] inside "1.prems"
        by (simp add: s3_def pending_def)
      have f3: "syncStartTime s3 = syncStartTime s" "debugEnabled s3 = debugEnabled s"
        "length (commandBuffer s3) = length (commandBuffer s)"
        "syncReceived s3 = (syncReceived s \<and> targetIndex ?c \<noteq> 255)"
        "commandCount s3 = commandCount s - 1"
        by (simp_all add: s3_def)
      have IH: "case updateLoop now i s3 of (s', acts) \<Rightarrow>
          pending s' = take ?k (pending s3)
                       @ filter (\<lambda>c. \<not> due now (syncStartTime s3) c) (drop ?k (pending s3))
        \<and> acts = concat (map (\<lambda>c. snd (fire s3 c))
                          (filter (due now (syncStartTime s3)) (drop ?k (pending s3))))
        \<and> syncReceived s' =
            (syncReceived s3
             \<and> (\<forall>c \<in> set (drop ?k (pending s3)).
                   due now (syncStartTime s3) c \<longrightarrow> targetIndex c \<noteq> 255))
        \<and> syncStartTime s' = syncStartTime s3 \<and> debugEnabled s' = debugEnabled s3
        \<and> length (commandBuffer s') = length (commandBuffer s3)
        \<and> 0 \<le> commandCount s' \<and> commandCount s' \<le> int (length (commandBuffer s'))"
        unfolding s3_def using True inside "1.prems"
        by (intro "1.IH"(1)) (auto simp: due_def)
      have acts3: "(\<lambda>c. snd (fire s3 c)) = (\<lambda>c. snd (fire s c))"
        using fire_acts_cong [of s3 s] f3(2) by auto
      have tk: "take ?k (pending s3) = take ?k ?P" using k by (simp add: P3)
      have dk: "drop ?k (pending s3) = drop (Suc ?k) ?P" using k by (simp add: P3)
      show ?thesis
        using IH True unfolding updateLoop_fire [OF inside True] s3_def [symmetric] acts3 tk dk f3
        by (auto simp: drop split: prod.splits)
    qed
  qed
qed


lemma servo_calls_append [simp]: "servo_calls (xs @ ys) = servo_calls xs @ servo_calls ys"
  by (induction xs rule: servo_calls.induct) auto

lemma servo_calls_fire:
  "servo_calls (snd (fire s c)) =
     (if targetIndex c = 255 then [] else [(uint (targetIndex c), uint (angle c))])"
  by (simp add: fire_def)

lemma servo_calls_fired:
  "servo_calls (concat (map (\<lambda>c. snd (fire s c)) cs)) =
     map (\<lambda>c. (uint (targetIndex c), uint (angle c))) (filter (\<lambda>c. targetIndex c \<noteq> 255) cs)"
  by (induction cs) (simp_all add: servo_calls_fire)

lemma update_post:
  assumes "syncReceived s" and "in_bounds s"
  shows "pending (fst (update now s)) =
           filter (\<lambda>c. \<not> due now (syncStartTime s) c) (pending s)"
    and "snd (update now s) =
           concat (map (\<lambda>c. snd (fire s c)) (filter (due now (syncStartTime s)) (pending s)))"
    and "syncReceived (fst (update now s)) =
           (\<forall>c \<in> set (pending s). due now (syncStartTime s) c \<longrightarrow> targetIndex c \<noteq> 255)"
    and "syncStartTime (fst (update now s)) = syncStartTime s"
    and "debugEnabled (fst (update now s)) = debugEnabled s"
    and "length (commandBuffer (fst (update now s))) = length (commandBuffer s)"
    and "in_bounds (fst (update now s))"
  using updateLoop_post [of 0 s now] assms
  by (auto simp: update_def in_bounds_def split: prod.splits)

section \<open>What a turn of the parser can do to the fields\<close>

lemma parseTurn_Consumed_cases:
  assumes "parseTurn now s rx = Consumed s' rx' acts"
  shows "(Serial_peek rx = STOP_MARKER \<and> s' = s\<lparr>commandCount := 0, syncReceived := False\<rparr>)
       \<or> ((Serial_peek rx = RESET_MARKER \<or> Serial_peek rx = GET_TIME_MARKER) \<and> s' = s)
       \<or> ((Serial_peek rx = COMMAND_MARKER \<or> Serial_peek rx = END_MARKER)
           \<and> (if commandCount s < MAX_COMMANDS
               then \<exists>cmd. s' = s\<lparr>commandBuffer := (commandBuffer s)[nat (commandCount s) := cmd],
                                 commandCount := commandCount s + 1\<rparr>
               else s' = s))
       \<or> (Serial_peek rx = SYNC_MARKER
           \<and> (\<exists>t. s' = s\<lparr>syncStartTime := t, syncReceived := True, commandCount := 0\<rparr>))"
proof -
  let ?m = "Serial_peek rx" and ?a = "Serial_available rx"
  consider (stop) "?m = STOP_MARKER" "1 \<le> ?a"
    | (reset) "?m = RESET_MARKER" "1 + MAX_RESET_SERVOS * 2 \<le> ?a"
    | (pick) "?m = COMMAND_MARKER" "COMMAND_PACKET_SIZE \<le> ?a"
    | (endp) "?m = END_MARKER" "END_PACKET_SIZE \<le> ?a"
    | (time) "?m = GET_TIME_MARKER" "GET_TIME_PACKET_SIZE \<le> ?a"
    | (sync) "?m = SYNC_MARKER" "SYNC_PACKET_SIZE \<le> ?a"
    | (none) "\<not> (?m = STOP_MARKER \<and> 1 \<le> ?a)"
        "\<not> (?m = RESET_MARKER \<and> 1 + MAX_RESET_SERVOS * 2 \<le> ?a)"
        "\<not> (?m = COMMAND_MARKER \<and> COMMAND_PACKET_SIZE \<le> ?a)"
        "\<not> (?m = END_MARKER \<and> END_PACKET_SIZE \<le> ?a)"
        "\<not> (?m = GET_TIME_MARKER \<and> GET_TIME_PACKET_SIZE \<le> ?a)"
        "\<not> (?m = SYNC_MARKER \<and> SYNC_PACKET_SIZE \<le> ?a)"
    by blast
  then show ?thesis
  proof cases
    case stop
    then show ?thesis using assms
      by (simp add: parseTurn_def case_prod_beta)
  next
    case reset
    then show ?thesis using assms
      by (simp add: parseTurn_def case_prod_beta wire_defs)
  next
    case pick
    then show ?thesis using assms
      by (auto simp: parseTurn_def case_prod_beta Let_def wire_defs split: if_splits)
  next
    case endp
    then show ?thesis using assms
      by (auto simp: parseTurn_def case_prod_beta Let_def wire_defs split: if_splits)
  next
    case time
    then show ?thesis using assms
      by (simp add: parseTurn_def case_prod_beta wire_defs)
  next
    case sync
    then show ?thesis using assms
      by (auto simp: parseTurn_def case_prod_beta Let_def wire_defs split: if_splits)
  next
    case none
    have "parseTurn now s rx = Stalled"
      unfolding parseTurn_def Let_def by (simp only: none if_False)
    with assms show ?thesis by simp
  qed
qed


lemma due_no_overflow:
  assumes "unat baseline + unat (relativeDelay c) < 2 ^ 32"
  shows "due now baseline c = (unat baseline + unat (relativeDelay c) \<le> unat now)"
proof -
  have "unat (baseline + relativeDelay c) = unat baseline + unat (relativeDelay c)"
    using assms by (simp add: unat_add_lem [THEN iffD1])
  then show ?thesis by (simp add: due_def word_le_nat_alt)
qed

text \<open>Beyond \<open>2 ^ 32\<close> the sum starts again at 0: with the baseline at the largest value, a
  delay of one millisecond is due at every time.\<close>

lemma execTime_wraps:
  "due now 0xFFFFFFFF \<lparr>targetIndex = t, angle = a, relativeDelay = 1\<rparr>"
proof -
  have top: "(4294967296 :: u32) = 0" by (simp add: word_uint_eq_iff)
  have sum: "(0xFFFFFFFF :: u32) + 1 = 0" by (simp add: top)
  show ?thesis unfolding due_def Command.select_convs sum by simp
qed


lemma parseTurn_well_formed:
  assumes "parseTurn now s rx = Consumed s' rx' acts" and "well_formed s"
  shows "well_formed s'"
  using parseTurn_Consumed_cases [OF assms(1)] assms(2)
  by (auto simp: well_formed_def MAX_COMMANDS_def split: if_splits)

lemma parseSerialData_well_formed:
  "parseSerialData now s rx = (Inr s', rx', acts) \<Longrightarrow> well_formed s \<Longrightarrow> well_formed s'"
proof (induction now s rx arbitrary: s' rx' acts rule: parseSerialData.induct)
  case (1 now s rx)
  show ?case
  proof (cases "0 < Serial_available rx")
    case False
    with "1.prems" show ?thesis by (subst (asm) parseSerialData.simps) simp
  next
    case True
    show ?thesis
    proof (cases "parseTurn now s rx")
      case (Consumed s1 rx1 acts1)
      obtain r rx2 acts2 where rec: "parseSerialData now s1 rx1 = (r, rx2, acts2)"
        by (cases "parseSerialData now s1 rx1")
      from "1.prems"(1) True Consumed rec have "r = Inr s'"
        by (subst (asm) parseSerialData.simps) simp
      with rec have "parseSerialData now s1 rx1 = (Inr s', rx2, acts2)" by simp
      moreover have "well_formed s1"
        using parseTurn_well_formed [OF Consumed "1.prems"(2)] .
      ultimately show ?thesis using "1.IH" [OF True Consumed] by blast
    next
      case Stalled
      with "1.prems" True show ?thesis by (subst (asm) parseSerialData.simps) simp
    next
      case (Fatal rx1 acts1 msg)
      with "1.prems" True show ?thesis by (subst (asm) parseSerialData.simps) simp
    qed
  qed
qed

lemma well_formed_in_bounds: "well_formed s \<Longrightarrow> in_bounds s"
  by (simp add: well_formed_def in_bounds_def)

lemma update_well_formed:
  assumes "well_formed s"
  shows "well_formed (fst (update now s))"
proof (cases "syncReceived s")
  case False
  then show ?thesis using assms by (simp add: update_inactive)
next
  case True
  have ib: "in_bounds s" using assms by (rule well_formed_in_bounds)
  have "in_bounds (fst (update now s))"
    and "length (commandBuffer (fst (update now s))) = length (commandBuffer s)"
    using update_post [OF True ib] by simp_all
  then show ?thesis using assms by (simp add: well_formed_def in_bounds_def)
qed

section \<open>Byte orders\<close>

lemma int_le32:
  fixes d0 d1 d2 d3 :: u8
  shows "uint d0 OR push_bit 8 (uint d1) OR push_bit 16 (uint d2) OR push_bit 24 (uint d3)
     = uint d0 + 256 * uint d1 + 65536 * uint d2 + 16777216 * uint d3"
proof -
  have b: "0 \<le> uint d0" "uint d0 < 2 ^ 8" "0 \<le> uint d1" "uint d1 < 2 ^ 8"
    "0 \<le> uint d2" "uint d2 < 2 ^ 8"
    using uint_lt2p [of d0] uint_lt2p [of d1] uint_lt2p [of d2] by simp_all
  have "uint d0 OR push_bit 8 (uint d1) OR push_bit 16 (uint d2) OR push_bit 24 (uint d3)
      = uint d0 OR push_bit 8 (uint d1 OR push_bit 8 (uint d2 OR push_bit 8 (uint d3)))"
    by (simp add: push_bit_or)
  also have "\<dots> = uint d0 + 2 ^ 8 * (uint d1 + 2 ^ 8 * (uint d2 + 2 ^ 8 * uint d3))"
    using b by (simp only: or_push_int)
  finally show ?thesis by simp
qed

lemma le32_bound: "le32 d0 d1 d2 d3 < 2 ^ 32"
proof -
  have "unat d0 < 2 ^ LENGTH(8)" "unat d1 < 2 ^ LENGTH(8)" "unat d2 < 2 ^ LENGTH(8)"
    "unat d3 < 2 ^ LENGTH(8)"
    by (rule unsigned_less)+
  then show ?thesis by (simp add: le32_def)
qed

lemma le32_decode:
  fixes d0 d1 d2 d3 :: u8
  shows "(ucast d0 :: u32) OR push_bit 8 (ucast d1) OR push_bit 16 (ucast d2)
           OR push_bit 24 (ucast d3) = word_of_nat (le32 d0 d1 d2 d3)"
proof -
  have "(ucast d0 :: u32) OR push_bit 8 (ucast d1) OR push_bit 16 (ucast d2)
           OR push_bit 24 (ucast d3)
      = word_of_int (uint d0 OR push_bit 8 (uint d1) OR push_bit 16 (uint d2)
                       OR push_bit 24 (uint d3))"
    by (rule bit_word_eqI) (auto simp: bit_simps)
  also have "\<dots> = word_of_int (int (le32 d0 d1 d2 d3))"
    unfolding int_le32 by (simp add: le32_def)
  finally show ?thesis by simp
qed

lemma be32_le32: "be32 b0 b1 b2 b3 = le32 b3 b2 b1 b0"
  by (simp add: be32_def le32_def)

lemma be32_decode:
  fixes b0 b1 b2 b3 :: u8
  shows "((push_bit 24 (ucast b0) OR push_bit 16 (ucast b1)) OR push_bit 8 (ucast b2))
           OR (ucast b3 :: u32) = word_of_nat (be32 b0 b1 b2 b3)"
proof -
  have "((push_bit 24 (ucast b0) OR push_bit 16 (ucast b1)) OR push_bit 8 (ucast b2))
           OR (ucast b3 :: u32)
      = (ucast b3 :: u32) OR push_bit 8 (ucast b2) OR push_bit 16 (ucast b1)
           OR push_bit 24 (ucast b0)"
    by (simp add: ac_simps)
  then show ?thesis by (simp only: le32_decode be32_le32)
qed

lemma unat_le32: "unat (word_of_nat (le32 d0 d1 d2 d3) :: u32) = le32 d0 d1 d2 d3"
  using le32_bound [of d0 d1 d2 d3] by (simp add: unat_of_nat)

lemma pending_append:
  assumes "0 \<le> commandCount s" and "commandCount s < int (length (commandBuffer s))"
  shows "pending (s\<lparr>commandBuffer := (commandBuffer s)[nat (commandCount s) := c],
                    commandCount := commandCount s + 1\<rparr>) = pending s @ [c]"
proof -
  let ?n = "nat (commandCount s)"
  have n: "?n < length (commandBuffer s)" using assms by simp
  have "nat (commandCount s + 1) = Suc ?n" using assms by simp
  then show ?thesis
    using n by (simp add: pending_def take_Suc_conv_app_nth)
qed

lemma updateLoop_empty: "commandCount s = 0 \<Longrightarrow> updateLoop t 0 s = (s, [])"
  by (simp add: updateLoop_exit)

section \<open>The error loop\<close>

lemma cycles_Halted:
  "cycles es (Halted msg, rx) =
     ((Halted msg, rx @ concat (map fst es)),
      concat (map (\<lambda>e. errorHandler_body msg) es))"
proof (induction es arbitrary: rx)
  case Nil
  show ?case by simp
next
  case (Cons e es)
  obtain arrived now where e: "e = (arrived, now)" by (cases e)
  show ?case by (simp add: e Cons.IH)
qed

lemma servo_calls_error_loop:
  "servo_calls (concat (map (\<lambda>e. errorHandler_body msg) es)) = []"
  by (induction es) (simp_all add: errorHandler_body_def)

section \<open>The count stays within the array\<close>

lemma handle_well_formed:
  assumes "handle now s rx = (Inr s', rx', acts)" and "well_formed s"
  shows "well_formed s'"
proof -
  obtain r rx1 acts1 where p: "parseSerialData now s rx = (r, rx1, acts1)"
    by (cases "parseSerialData now s rx")
  show ?thesis
  proof (cases r)
    case (Inl msg)
    with assms(1) p show ?thesis by (simp add: handle_def)
  next
    case (Inr s1)
    have wf1: "well_formed s1"
      using parseSerialData_well_formed [OF p [unfolded Inr] assms(2)] .
    have "s' = fst (update now s1)"
      using assms(1) p Inr by (simp add: handle_def split: prod.splits)
    then show ?thesis using update_well_formed [OF wf1] by simp
  qed
qed

lemma cycles_well_formed:
  "cycles es (Running s, rx) = ((Running s', rx'), acts) \<Longrightarrow> well_formed s \<Longrightarrow> well_formed s'"
proof (induction es arbitrary: s rx acts)
  case Nil
  then show ?case by simp
next
  case (Cons e es)
  obtain arrived now where e: "e = (arrived, now)" by (cases e)
  obtain r rx1 acts1 where h: "handle now s (rx @ arrived) = (r, rx1, acts1)"
    by (cases "handle now s (rx @ arrived)")
  show ?case
  proof (cases r)
    case (Inl msg)
    have "fst (fst (cycles (e # es) (Running s, rx))) = Halted msg"
      by (simp add: e h Inl cycles_Halted split: prod.splits)
    with Cons.prems(1) show ?thesis by simp
  next
    case (Inr s1)
    have wf1: "well_formed s1"
      using handle_well_formed [OF h [unfolded Inr] Cons.prems(2)] .
    obtain c2 acts2 where rec: "cycles es (Running s1, rx1) = (c2, acts2)"
      by (cases "cycles es (Running s1, rx1)")
    have "c2 = (Running s', rx')"
      using Cons.prems(1) by (simp add: e h Inr rec)
    with rec show ?thesis using Cons.IH [OF _ wf1] by simp
  qed
qed

section \<open>Without a SYNC marker the sync flag stays off\<close>









section \<open>What one call of the scheduler does\<close>

text \<open>
  While the sync flag is set, one call of \<^verbatim>\<open>update\<close> at time \<open>now\<close> calls the driver
  exactly once for every pending entry that is not the end-of-song marker and for which
  the test \<^verbatim>\<open>now >= syncStartTime + relativeDelay\<close> of the code holds, with the stored
  target index and angle, in slot order; the entries left pending are exactly the ones
  for which the test fails, in their old order. This holds for an array of any size and
  an entry in any slot. The sum in the test is the \<^verbatim>\<open>unsigned long\<close> sum of the code: as
  long as it stays below \<open>2 ^ 32\<close> the test is the comparison of the numbers.
\<close>

lemma update_fires_due:
  assumes "syncReceived s" and "in_bounds s"
  shows "servo_calls (snd (update now s)) =
           map (\<lambda>c. (uint (targetIndex c), uint (angle c)))
             (filter (\<lambda>c. due now (syncStartTime s) c \<and> targetIndex c \<noteq> 255) (pending s))
       \<and> pending (fst (update now s)) =
           filter (\<lambda>c. \<not> due now (syncStartTime s) c) (pending s)
       \<and> (\<forall>k < length (pending s). targetIndex (pending s ! k) \<noteq> 255 \<longrightarrow>
            (if due now (syncStartTime s) (pending s ! k)
             then (uint (targetIndex (pending s ! k)), uint (angle (pending s ! k)))
                    \<in> set (servo_calls (snd (update now s)))
                  \<and> pending s ! k \<notin> set (pending (fst (update now s)))
             else pending s ! k \<in> set (pending (fst (update now s)))))
       \<and> (\<forall>c. unat (syncStartTime s) + unat (relativeDelay c) < 2 ^ 32 \<longrightarrow>
              due now (syncStartTime s) c =
                (unat (syncStartTime s) + unat (relativeDelay c) \<le> unat now))"
proof -
  have calls: "servo_calls (snd (update now s)) =
           map (\<lambda>c. (uint (targetIndex c), uint (angle c)))
             (filter (\<lambda>c. due now (syncStartTime s) c \<and> targetIndex c \<noteq> 255) (pending s))"
    unfolding update_post(2) [OF assms] servo_calls_fired
    by (simp add: conj_commute)
  have rest: "pending (fst (update now s)) =
           filter (\<lambda>c. \<not> due now (syncStartTime s) c) (pending s)"
    by (rule update_post(1) [OF assms])
  have each: "\<forall>k < length (pending s). targetIndex (pending s ! k) \<noteq> 255 \<longrightarrow>
            (if due now (syncStartTime s) (pending s ! k)
             then (uint (targetIndex (pending s ! k)), uint (angle (pending s ! k)))
                    \<in> set (servo_calls (snd (update now s)))
                  \<and> pending s ! k \<notin> set (pending (fst (update now s)))
             else pending s ! k \<in> set (pending (fst (update now s))))"
  proof (intro allI impI)
    fix k assume k: "k < length (pending s)" and pick: "targetIndex (pending s ! k) \<noteq> 255"
    let ?c = "pending s ! k"
    have mem: "?c \<in> set (pending s)" using k by simp
    show "if due now (syncStartTime s) ?c
          then (uint (targetIndex ?c), uint (angle ?c)) \<in> set (servo_calls (snd (update now s)))
               \<and> ?c \<notin> set (pending (fst (update now s)))
          else ?c \<in> set (pending (fst (update now s)))"
    proof (cases "due now (syncStartTime s) ?c")
      case True
      then have "?c \<in> set (filter (\<lambda>c. due now (syncStartTime s) c \<and> targetIndex c \<noteq> 255)
                               (pending s))"
        using mem pick by simp
      then have "(uint (targetIndex ?c), uint (angle ?c)) \<in> set (servo_calls (snd (update now s)))"
        unfolding calls set_map by (rule imageI)
      with True show ?thesis by (simp add: rest)
    next
      case False
      with mem show ?thesis by (simp add: rest)
    qed
  qed
  from calls rest each show ?thesis
    using due_no_overflow [of "syncStartTime s" _ now] by blast
qed


lemma update_fires_due_examples:
  "syncReceived spec_example \<and> in_bounds spec_example
   \<and> servo_calls (snd (update 1499 spec_example)) = []
   \<and> pending (fst (update 1499 spec_example)) = pending spec_example
   \<and> servo_calls (snd (update 1500 spec_example)) = [(3, 90)]
   \<and> pending (fst (update 1500 spec_example)) = []
   \<and> syncReceived three_pending \<and> in_bounds three_pending
   \<and> servo_calls (snd (update 1100 three_pending)) = [(2, 20), (3, 30)]
   \<and> pending (fst (update 1100 three_pending)) =
       [\<lparr>targetIndex = 1, angle = 10, relativeDelay = 900\<rparr>]"
proof -
  have a: "syncReceived spec_example" and b: "in_bounds spec_example"
    by (simp_all add: spec_example_def in_bounds_def)
  have p: "pending spec_example = [\<lparr>targetIndex = 3, angle = 90, relativeDelay = 500\<rparr>]"
    by (simp add: spec_example_def pending_def)
  have t: "syncStartTime spec_example = 1000" by (simp add: spec_example_def)
  have a3: "syncReceived three_pending" and b3: "in_bounds three_pending"
    by (simp_all add: three_pending_def in_bounds_def)
  have p3: "pending three_pending =
       [\<lparr>targetIndex = 1, angle = 10, relativeDelay = 900\<rparr>,
        \<lparr>targetIndex = 2, angle = 20, relativeDelay = 100\<rparr>,
        \<lparr>targetIndex = 3, angle = 30, relativeDelay = 100\<rparr>]"
    by (simp add: three_pending_def pending_def)
  have t3: "syncStartTime three_pending = 1000" by (simp add: three_pending_def)
  show ?thesis
    using update_fires_due [OF a b, of 1499] update_fires_due [OF a b, of 1500]
      update_fires_due [OF a3 b3, of 1100] a b a3 b3
    by (simp add: p t p3 t3 due_def)
qed

section \<open>A run of the example\<close>

text \<open>SYNC at 1000 and a PICK (servo 3, angle 90, delay 500) arrive together: at 1499
  nothing moves, at 1500 the driver is called once and the count is back at 0. Both
  runs are computed from the definitions alone.\<close>

lemma scenario_1499:
  "cycles [([0xAA, 1, 0, 0, 0x03, 0xE8, 0xBB, 3, 90, 0xF4, 0x01, 0, 0], 1499)] (Running fresh, []) =
     ((Running spec_example, []), [])"
proof -
  let ?s1 = "fresh\<lparr>syncStartTime := 1000, syncReceived := True, commandCount := 0\<rparr>"
  have be: "be32 0 0 0x03 0xE8 = 1000" and le: "le32 0xF4 0x01 0 0 = 500"
    by (simp_all add: be32_def le32_def)
  have t1: "parseTurn 1499 fresh (0xAA # 1 # 0 # 0 # 0x03 # 0xE8 # [0xBB, 3, 90, 0xF4, 0x01, 0, 0]) =
      Consumed ?s1 [0xBB, 3, 90, 0xF4, 0x01, 0, 0] []"
    by (simp add: parseTurn_SYNC be32_decode be Let_def fresh_def RemoteControl_init_def)
  have t2: "parseTurn 1499 ?s1 (0xBB # 3 # 90 # 0xF4 # 0x01 # 0 # 0 # []) =
      Consumed spec_example [] []"
    by (simp add: parseTurn_PICK le32_decode le Let_def fresh_def RemoteControl_init_def
        MAX_COMMANDS_def spec_example_def)
  have p: "parseSerialData 1499 fresh [0xAA, 1, 0, 0, 0x03, 0xE8, 0xBB, 3, 90, 0xF4, 0x01, 0, 0] =
      (Inr spec_example, [], [])"
    using parseSerialData_Consumed [OF t1] parseSerialData_Consumed [OF t2]
    by (simp add: parseSerialData_Nil)
  have u: "update 1499 spec_example = (spec_example, [])"
    by (simp add: update_def updateLoop.simps spec_example_def)
  show ?thesis by (simp add: handle_def p u)
qed

lemma scenario_1500:
  "cycles [([], 1500)] (Running spec_example, []) =
     ((Running (spec_example\<lparr>commandCount := 0\<rparr>), []), [ServoAngle 3 90])"
proof -
  have u: "update 1500 spec_example = (spec_example\<lparr>commandCount := 0\<rparr>, [ServoAngle 3 90])"
    by (simp add: update_def updateLoop.simps shiftLeft.simps fire_def spec_example_def)
  show ?thesis by (simp add: handle_def parseSerialData_Nil u)
qed


section \<open>The claims\<close>



text \<open>
  C2. The claim: a PICK or an END packet read while the buffer is full is dropped, an
  error line is printed, and the buffer is unchanged. The code at the input PICK, END
  (the END arrives while the one slot is taken): the END is dropped and the buffer is
  unchanged, but nothing at all is printed. The same input with a second PICK in place of
  the END prints \<^verbatim>\<open>ERROR: command buffer full\<close>.
\<close>

theorem C2_end_dropped_without_error:
  "parseSerialData 0 fresh [0xBB, 3, 90, 0xF4, 0x01, 0, 0, 0xDD, 0xE8, 0x03, 0, 0] =
     (Inr \<lparr>commandBuffer = [\<lparr>targetIndex = 3, angle = 90, relativeDelay = 500\<rparr>],
           commandCount = 1, syncReceived = False, syncStartTime = 0, debugEnabled = False\<rparr>,
      [], [])
   \<and> parseSerialData 0 fresh [0xBB, 3, 90, 0xF4, 0x01, 0, 0, 0xBB, 4, 45, 0xE8, 0x03, 0, 0] =
     (Inr \<lparr>commandBuffer = [\<lparr>targetIndex = 3, angle = 90, relativeDelay = 500\<rparr>],
           commandCount = 1, syncReceived = False, syncStartTime = 0, debugEnabled = False\<rparr>,
      [], [SerialPrintln ''ERROR: command buffer full''])"
proof -
  let ?full = "\<lparr>commandBuffer = [\<lparr>targetIndex = 3, angle = 90, relativeDelay = 500\<rparr>],
           commandCount = 1, syncReceived = False, syncStartTime = 0, debugEnabled = False\<rparr>"
  have v: "le32 0xF4 0x01 0 0 = 500" by (simp add: le32_def)
  have first: "parseTurn 0 fresh (0xBB # 3 # 90 # 0xF4 # 0x01 # 0 # 0 # rest) =
      Consumed ?full rest []" for rest
    by (simp add: parseTurn_PICK le32_decode v Let_def fresh_def RemoteControl_init_def
        MAX_COMMANDS_def)
  have full_end: "parseTurn 0 ?full [0xDD, 0xE8, 0x03, 0, 0] = Consumed ?full [] []"
    by (simp add: parseTurn_END Let_def MAX_COMMANDS_def)
  have full_pick: "parseTurn 0 ?full [0xBB, 4, 45, 0xE8, 0x03, 0, 0] =
      Consumed ?full [] [SerialPrintln ''ERROR: command buffer full'']"
    by (simp add: parseTurn_PICK Let_def MAX_COMMANDS_def)
  show ?thesis
    using parseSerialData_Consumed [OF first [of "[0xDD, 0xE8, 0x03, 0, 0]"]]
      parseSerialData_Consumed [OF first [of "[0xBB, 4, 45, 0xE8, 0x03, 0, 0]"]]
      parseSerialData_Consumed [OF full_end] parseSerialData_Consumed [OF full_pick]
    by (simp add: parseSerialData_Nil)
qed

text \<open>
  C3. A SYNC packet whose type byte is 1, read by the parser, sets the baseline to the
  four bytes behind the type byte taken big-endian, sets the sync flag and sets the count
  of buffered commands to 0, whatever the array, the count and the flag held before.
  Nothing is pending afterwards and \<^verbatim>\<open>update\<close> does nothing on the new state at any
  time; the next PICK that is read overwrites slot 0 and is then the only pending entry,
  so what was buffered under the old baseline is never executed.
\<close>

theorem C3_sync_resets:
  "parseTurn now s (0xAA # 1 # b0 # b1 # b2 # b3 # rest) =
     Consumed (s\<lparr>syncStartTime := word_of_nat (be32 b0 b1 b2 b3), syncReceived := True,
                 commandCount := 0\<rparr>) rest
       (if debugEnabled s
        then [SerialPrint ''RemoteControl: Sync at '', SerialPrintlnNum (int (be32 b0 b1 b2 b3))]
        else [])
   \<and> unat (word_of_nat (be32 b0 b1 b2 b3) :: u32) = be32 b0 b1 b2 b3
   \<and> pending (s\<lparr>syncStartTime := word_of_nat (be32 b0 b1 b2 b3), syncReceived := True,
                  commandCount := 0\<rparr>) = []
   \<and> update t (s\<lparr>syncStartTime := word_of_nat (be32 b0 b1 b2 b3), syncReceived := True,
                   commandCount := 0\<rparr>) =
       (s\<lparr>syncStartTime := word_of_nat (be32 b0 b1 b2 b3), syncReceived := True,
           commandCount := 0\<rparr>, [])
   \<and> (0 < length (commandBuffer s) \<longrightarrow>
        (case parseTurn now'
                (s\<lparr>syncStartTime := word_of_nat (be32 b0 b1 b2 b3), syncReceived := True,
                    commandCount := 0\<rparr>)
                (0xBB # ti # an # d0 # d1 # d2 # d3 # rest') of
           Consumed s'' rx'' acts \<Rightarrow>
             pending s'' = [\<lparr>targetIndex = ti, angle = an,
                             relativeDelay = word_of_nat (le32 d0 d1 d2 d3)\<rparr>]
         | _ \<Rightarrow> False))"
proof -
  let ?s' = "s\<lparr>syncStartTime := word_of_nat (be32 b0 b1 b2 b3), syncReceived := True,
                commandCount := 0\<rparr>"
  have u: "unat (word_of_nat (be32 b0 b1 b2 b3) :: u32) = be32 b0 b1 b2 b3"
    unfolding be32_le32 by (rule unat_le32)
  then have i: "uint (word_of_nat (be32 b0 b1 b2 b3) :: u32) = int (be32 b0 b1 b2 b3)"
    by (metis uint_nat)
  have turn: "parseTurn now s (0xAA # 1 # b0 # b1 # b2 # b3 # rest) =
     Consumed ?s' rest
       (if debugEnabled s
        then [SerialPrint ''RemoteControl: Sync at '', SerialPrintlnNum (int (be32 b0 b1 b2 b3))]
        else [])"
    using i by (simp add: parseTurn_SYNC be32_decode Let_def)
  have empty: "pending ?s' = []" by (simp add: pending_def)
  have idle: "update t ?s' = (?s', [])" by (simp add: update_def updateLoop_empty)
  have next_pick: "0 < length (commandBuffer s) \<longrightarrow>
        (case parseTurn now' ?s' (0xBB # ti # an # d0 # d1 # d2 # d3 # rest') of
           Consumed s'' rx'' acts \<Rightarrow>
             pending s'' = [\<lparr>targetIndex = ti, angle = an,
                             relativeDelay = word_of_nat (le32 d0 d1 d2 d3)\<rparr>]
         | _ \<Rightarrow> False)"
    by (simp add: parseTurn_PICK le32_decode Let_def MAX_COMMANDS_def pending_def
        take_Suc_conv_app_nth)
  from turn u empty idle next_pick show ?thesis by (intro conjI)
qed

theorem C3_witness:
  "0 < length (commandBuffer stale_example)
   \<and> parseTurn 0 stale_example [0xAA, 1, 0, 0, 3, 232] =
       Consumed (stale_example\<lparr>syncStartTime := 1000, syncReceived := True, commandCount := 0\<rparr>)
         [] []
   \<and> update 1000 (stale_example\<lparr>syncStartTime := 1000, syncReceived := True,
                                 commandCount := 0\<rparr>) =
       (stale_example\<lparr>syncStartTime := 1000, syncReceived := True, commandCount := 0\<rparr>, [])"
  using C3_sync_resets [of 0 stale_example 0 0 3 232 "[]" 1000]
  by (simp add: be32_def stale_example_def)

text \<open>
  C4. The claim: a buffered PICK is executed by the first call of \<^verbatim>\<open>update\<close> at which
  \<open>now\<close> has reached baseline plus delay, and never before that time. The code adds
  baseline and delay as \<^verbatim>\<open>unsigned long\<close>, and the sum wraps at \<open>2 ^ 32\<close>. From the
  constructor state, SYNC with time 1000 and a PICK for servo 3, angle 90, with the delay
  4294967295 (within the range "0 to about 49 days" that the header gives for the field)
  arrive at \<open>now = 1000\<close>: the driver is called in the same call of \<^verbatim>\<open>handle\<close>, about 49
  days early. Likewise SYNC with time 4294967040 and a PICK with delay 512 at
  \<open>now = 4294967040\<close>: the driver is called 512 ms early. Whenever the sum stays below
  \<open>2 ^ 32\<close> the claim holds, for an entry in any slot (\<open>update_fires_due\<close>).
\<close>

theorem C4_sum_wraps_pick_fires_early:
  "cycles [([0xAA, 1, 0, 0, 0x03, 0xE8, 0xBB, 3, 90, 0xFF, 0xFF, 0xFF, 0xFF], 1000)]
     (Running fresh, []) =
     ((Running \<lparr>commandBuffer = [\<lparr>targetIndex = 3, angle = 90, relativeDelay = 0xFFFFFFFF\<rparr>],
                commandCount = 0, syncReceived = True, syncStartTime = 1000,
                debugEnabled = False\<rparr>, []),
      [ServoAngle 3 90])
   \<and> be32 0 0 0x03 0xE8 = 1000 \<and> le32 0xFF 0xFF 0xFF 0xFF = 4294967295
   \<and> \<not> (be32 0 0 0x03 0xE8 + le32 0xFF 0xFF 0xFF 0xFF \<le> unat (1000 :: u32))
   \<and> cycles [([0xAA, 1, 0xFF, 0xFF, 0xFF, 0x00, 0xBB, 3, 90, 0x00, 0x02, 0, 0], 0xFFFFFF00)]
     (Running fresh, []) =
     ((Running \<lparr>commandBuffer = [\<lparr>targetIndex = 3, angle = 90, relativeDelay = 512\<rparr>],
                commandCount = 0, syncReceived = True, syncStartTime = 0xFFFFFF00,
                debugEnabled = False\<rparr>, []),
      [ServoAngle 3 90])
   \<and> be32 0xFF 0xFF 0xFF 0x00 = 4294967040 \<and> le32 0x00 0x02 0 0 = 512
   \<and> \<not> (be32 0xFF 0xFF 0xFF 0x00 + le32 0x00 0x02 0 0 \<le> unat (0xFFFFFF00 :: u32))"
proof -
  let ?a1 = "\<lparr>commandBuffer = [\<lparr>targetIndex = 0, angle = 0, relativeDelay = 0\<rparr>],
               commandCount = 0, syncReceived = True, syncStartTime = 1000,
               debugEnabled = False\<rparr>"
  let ?a2 = "\<lparr>commandBuffer = [\<lparr>targetIndex = 3, angle = 90, relativeDelay = 0xFFFFFFFF\<rparr>],
               commandCount = 1, syncReceived = True, syncStartTime = 1000,
               debugEnabled = False\<rparr>"
  let ?b1 = "\<lparr>commandBuffer = [\<lparr>targetIndex = 0, angle = 0, relativeDelay = 0\<rparr>],
               commandCount = 0, syncReceived = True, syncStartTime = 0xFFFFFF00,
               debugEnabled = False\<rparr>"
  let ?b2 = "\<lparr>commandBuffer = [\<lparr>targetIndex = 3, angle = 90, relativeDelay = 512\<rparr>],
               commandCount = 1, syncReceived = True, syncStartTime = 0xFFFFFF00,
               debugEnabled = False\<rparr>"
  have v: "be32 0 0 0x03 0xE8 = 1000" "le32 0xFF 0xFF 0xFF 0xFF = 4294967295"
    "be32 0xFF 0xFF 0xFF 0x00 = 4294967040" "le32 0x00 0x02 0 0 = 512"
    by (simp_all add: be32_def le32_def)
  have top: "(4294967296 :: u32) = 0" by (simp add: word_uint_eq_iff)
  have a1: "parseTurn 1000 fresh (0xAA # 1 # 0 # 0 # 0x03 # 0xE8 # [0xBB, 3, 90, 0xFF, 0xFF, 0xFF, 0xFF]) =
      Consumed ?a1 [0xBB, 3, 90, 0xFF, 0xFF, 0xFF, 0xFF] []"
    by (simp add: parseTurn_SYNC be32_decode v Let_def fresh_def RemoteControl_init_def)
  have a2: "parseTurn 1000 ?a1 (0xBB # 3 # 90 # 0xFF # 0xFF # 0xFF # 0xFF # []) =
      Consumed ?a2 [] []"
    by (simp add: parseTurn_PICK le32_decode v Let_def MAX_COMMANDS_def)
  have pa: "parseSerialData 1000 fresh [0xAA, 1, 0, 0, 0x03, 0xE8, 0xBB, 3, 90, 0xFF, 0xFF, 0xFF, 0xFF] =
      (Inr ?a2, [], [])"
    using parseSerialData_Consumed [OF a1] parseSerialData_Consumed [OF a2]
    by (simp add: parseSerialData_Nil)
  have ua: "update 1000 ?a2 = (?a2\<lparr>commandCount := 0\<rparr>, [ServoAngle 3 90])"
    by (simp add: update_def updateLoop.simps shiftLeft.simps fire_def top)
  have b1: "parseTurn 0xFFFFFF00 fresh (0xAA # 1 # 0xFF # 0xFF # 0xFF # 0x00 # [0xBB, 3, 90, 0x00, 0x02, 0, 0]) =
      Consumed ?b1 [0xBB, 3, 90, 0x00, 0x02, 0, 0] []"
    by (simp add: parseTurn_SYNC be32_decode v Let_def fresh_def RemoteControl_init_def)
  have b2: "parseTurn 0xFFFFFF00 ?b1 (0xBB # 3 # 90 # 0x00 # 0x02 # 0 # 0 # []) =
      Consumed ?b2 [] []"
    by (simp add: parseTurn_PICK le32_decode v Let_def MAX_COMMANDS_def)
  have pb: "parseSerialData 0xFFFFFF00 fresh [0xAA, 1, 0xFF, 0xFF, 0xFF, 0x00, 0xBB, 3, 90, 0x00, 0x02, 0, 0] =
      (Inr ?b2, [], [])"
    using parseSerialData_Consumed [OF b1] parseSerialData_Consumed [OF b2]
    by (simp add: parseSerialData_Nil)
  have ub: "update 0xFFFFFF00 ?b2 = (?b2\<lparr>commandCount := 0\<rparr>, [ServoAngle 3 90])"
    by (simp add: update_def updateLoop.simps shiftLeft.simps fire_def top)
  show ?thesis
    by (simp add: handle_def pa ua pb ub v)
qed

text \<open>
  C5. When the parser reads a SYNC packet whose type byte is not 1, control enters
  \<^verbatim>\<open>errorHandler\<close> and never leaves it: \<^verbatim>\<open>parseSerialData\<close> and \<^verbatim>\<open>handle\<close> do not return
  (\<^verbatim>\<open>update\<close> is not reached), the error message is printed once on entry and once more in
  every turn of the error loop, the four time bytes of the packet and every byte that
  arrives later stay unread in the receive buffer, and no driver call is ever made
  again, whatever packets are sent afterwards.
\<close>

theorem C5_bad_sync_halts:
  assumes "ty \<noteq> 1"
  shows "parseSerialData now s (0xAA # ty # b0 # b1 # b2 # b3 # rest) =
           (Inl ''Unexpected sync packet type'', b0 # b1 # b2 # b3 # rest,
            errorHandler_entry ''Unexpected sync packet type'')
       \<and> handle now s (0xAA # ty # b0 # b1 # b2 # b3 # rest) =
           (Inl ''Unexpected sync packet type'', b0 # b1 # b2 # b3 # rest,
            errorHandler_entry ''Unexpected sync packet type'')
       \<and> cycles ((0xAA # ty # b0 # b1 # b2 # b3 # rest, now) # es) (Running s, []) =
           ((Halted ''Unexpected sync packet type'',
             b0 # b1 # b2 # b3 # rest @ concat (map fst es)),
            errorHandler_entry ''Unexpected sync packet type''
            @ concat (map (\<lambda>e. errorHandler_body ''Unexpected sync packet type'') es))
       \<and> servo_calls (snd (cycles ((0xAA # ty # b0 # b1 # b2 # b3 # rest, now) # es)
                                 (Running s, []))) = []"
proof -
  let ?msg = "''Unexpected sync packet type''"
  let ?bad = "0xAA # ty # b0 # b1 # b2 # b3 # rest"
  have parse: "parseSerialData now s ?bad = (Inl ?msg, b0 # b1 # b2 # b3 # rest, errorHandler_entry ?msg)"
    by (rule parseSerialData_Fatal [OF parseTurn_SYNC_bad [OF assms]])
  have hand: "handle now s ?bad = (Inl ?msg, b0 # b1 # b2 # b3 # rest, errorHandler_entry ?msg)"
    by (simp add: handle_def parse)
  have run: "cycles ((?bad, now) # es) (Running s, []) =
           ((Halted ?msg, b0 # b1 # b2 # b3 # rest @ concat (map fst es)),
            errorHandler_entry ?msg @ concat (map (\<lambda>e. errorHandler_body ?msg) es))"
    by (simp add: hand cycles_Halted)
  have quiet: "servo_calls (snd (cycles ((?bad, now) # es) (Running s, []))) = []"
    unfolding run by (simp add: servo_calls_error_loop errorHandler_entry_def)
  from parse hand run quiet show ?thesis by (intro conjI)
qed

theorem C5_witness:
  "(2 :: u8) \<noteq> 1
   \<and> cycles [([0xAA, 2, 0, 0, 3, 232], 0), ([0xAA, 1, 0, 0, 3, 232], 10),
              ([0xBB, 3, 90, 0, 0, 0, 0], 20)]
        (Running spec_example, []) =
       ((Halted ''Unexpected sync packet type'',
         [0, 0, 3, 232, 0xAA, 1, 0, 0, 3, 232, 0xBB, 3, 90, 0, 0, 0, 0]),
        [SerialPrint ''RemoteControl ERROR: '', SerialPrintln ''Unexpected sync packet type'',
         Delay 1000,
         SerialPrint ''RemoteControl ERROR: '', SerialPrintln ''Unexpected sync packet type'',
         Delay 1000,
         SerialPrint ''RemoteControl ERROR: '', SerialPrintln ''Unexpected sync packet type''])"
proof -
  have ne: "(2 :: u8) \<noteq> 1" by simp
  show ?thesis
    using C5_bad_sync_halts [OF ne, of 0 spec_example 0 0 3 232 "[]"
        "[([0xAA, 1, 0, 0, 3, 232], 10), ([0xBB, 3, 90, 0, 0, 0, 0], 20)]"]
    by (simp add: errorHandler_entry_def errorHandler_body_def)
qed

text \<open>
  C6. A STOP packet (the single byte \<open>0xEE\<close>) at the front of the receive buffer is read
  whatever follows it and whatever the fields hold: the count of buffered commands becomes
  0, the sync flag becomes false, and the line \<^verbatim>\<open>STOPPED\<close> is printed at once; the parser
  goes on with the bytes behind it. No entry is pending afterwards, and \<^verbatim>\<open>update\<close> on the
  stopped object does nothing at any time.
\<close>

theorem C6_stop:
  "parseTurn now s (0xEE # rest) =
     Consumed (s\<lparr>commandCount := 0, syncReceived := False\<rparr>) rest [SerialPrintln ''STOPPED'']
   \<and> parseSerialData now s (0xEE # rest) =
       (let (r, rx', acts) = parseSerialData now (s\<lparr>commandCount := 0, syncReceived := False\<rparr>) rest
        in (r, rx', SerialPrintln ''STOPPED'' # acts))
   \<and> pending (s\<lparr>commandCount := 0, syncReceived := False\<rparr>) = []
   \<and> update t (s\<lparr>commandCount := 0, syncReceived := False\<rparr>) =
       (s\<lparr>commandCount := 0, syncReceived := False\<rparr>, [])"
proof (intro conjI)
  show turn: "parseTurn now s (0xEE # rest) =
     Consumed (s\<lparr>commandCount := 0, syncReceived := False\<rparr>) rest [SerialPrintln ''STOPPED'']"
    by (rule parseTurn_STOP)
  show "parseSerialData now s (0xEE # rest) =
       (let (r, rx', acts) = parseSerialData now (s\<lparr>commandCount := 0, syncReceived := False\<rparr>) rest
        in (r, rx', SerialPrintln ''STOPPED'' # acts))"
    using parseSerialData_Consumed [OF turn] by simp
  show "pending (s\<lparr>commandCount := 0, syncReceived := False\<rparr>) = []"
    by (simp add: pending_def)
  show "update t (s\<lparr>commandCount := 0, syncReceived := False\<rparr>) =
       (s\<lparr>commandCount := 0, syncReceived := False\<rparr>, [])"
    by (simp add: update_inactive)
qed


theorem C6_witness:
  "parseSerialData 0 spec_example [0xEE] =
     (Inr (spec_example\<lparr>commandCount := 0, syncReceived := False\<rparr>), [],
      [SerialPrintln ''STOPPED''])
   \<and> parseSerialData 0 fresh [0xEE] =
     (Inr (fresh\<lparr>commandCount := 0, syncReceived := False\<rparr>), [],
      [SerialPrintln ''STOPPED''])"
  using C6_stop [of 0 spec_example "[]"] C6_stop [of 0 fresh "[]"]
  by (simp add: parseSerialData_Nil)

text \<open>
  C7. A RESET packet (marker \<open>0xEF\<close> and \<open>2 * 18\<close> payload bytes) read by the parser calls
  the driver exactly \<^verbatim>\<open>MAX_RESET_SERVOS = 18\<close> times within that turn (18 is also the
  driver's \<^verbatim>\<open>MAX_SERVOS\<close>), for the indices 0 to 17 in this order, each with the signed 16-bit value of its two payload bytes taken
  big-endian; the fields (array, count, sync flag, baseline) are left as they are, whatever
  they hold, and the last thing done is printing \<^verbatim>\<open>RESET_DONE\<close>.
\<close>

theorem C7_reset_moves_all:
  assumes "length payload = 36"
  shows "parseTurn now s (0xEF # payload @ rest) =
           Consumed s rest
             (map (\<lambda>k. ServoAngle (int k)
                         (be16_signed (payload ! (2 * k)) (payload ! (2 * k + 1))))
                [0..<18]
              @ (if debugEnabled s
                 then [SerialPrintln ''RemoteControl: Servos RESET to dynamic angles.'']
                 else [])
              @ [SerialPrintln ''RESET_DONE''])
       \<and> (case parseTurn now s (0xEF # payload @ rest) of
            Consumed s' rx' acts \<Rightarrow>
              servo_calls acts =
                map (\<lambda>k. (int k, be16_signed (payload ! (2 * k)) (payload ! (2 * k + 1))))
                  [0..<18]
              \<and> int (length (servo_calls acts)) = MAX_RESET_SERVOS
              \<and> MAX_RESET_SERVOS = MAX_SERVOS
              \<and> last acts = SerialPrintln ''RESET_DONE''
          | _ \<Rightarrow> False)"
proof -
  have calls: "servo_calls (map (\<lambda>k. ServoAngle (int k) (f k)) ks) = map (\<lambda>k. (int k, f k)) ks"
    for f :: "nat \<Rightarrow> int" and ks
    by (induction ks) simp_all
  show ?thesis
    unfolding parseTurn_RESET [OF assms]
    by (simp add: calls MAX_RESET_SERVOS_def MAX_SERVOS_def del: upt_Suc)
qed


theorem C7_witness:
  "length reset_example = 36
   \<and> parseTurn 0 spec_example (0xEF # reset_example @ [0xCC]) =
       Consumed spec_example [0xCC]
         [ServoAngle 0 90, ServoAngle 1 (- 1), ServoAngle 2 (- 32768), ServoAngle 3 0,
          ServoAngle 4 0, ServoAngle 5 0, ServoAngle 6 0, ServoAngle 7 0, ServoAngle 8 0,
          ServoAngle 9 0, ServoAngle 10 0, ServoAngle 11 0, ServoAngle 12 0, ServoAngle 13 0,
          ServoAngle 14 0, ServoAngle 15 0, ServoAngle 16 0, ServoAngle 17 300,
          SerialPrintln ''RESET_DONE'']"
proof -
  have len: "length reset_example = 36" by (simp add: reset_example_def)
  have dbg: "debugEnabled spec_example = False" by (simp add: spec_example_def)
  have upt: "[0..<18] = [0, 1, 2, 3, 4, 5, 6, 7, 8, 9, 10, 11, 12, 13, 14, 15, 16, 17]"
    by code_simp
  have "parseTurn 0 spec_example (0xEF # reset_example @ [0xCC]) =
       Consumed spec_example [0xCC]
             (map (\<lambda>k. ServoAngle (int k)
                         (be16_signed (reset_example ! (2 * k)) (reset_example ! (2 * k + 1))))
                [0..<18]
              @ [SerialPrintln ''RESET_DONE''])"
    using C7_reset_moves_all [OF len, of 0 spec_example "[0xCC]"] by (simp add: dbg del: upt_Suc)
  then show ?thesis
    unfolding upt by (simp add: len reset_example_def be16_signed_def)
qed

text \<open>
  C8. When the first byte of a non-empty receive buffer is the marker of a known packet
  type and fewer bytes are available than the size of that packet, or is no known marker
  at all, the turn of the parser ends with \<^verbatim>\<open>break\<close>: \<^verbatim>\<open>parseSerialData\<close> returns with the
  fields and the receive buffer unchanged, having read nothing and done nothing.
\<close>

theorem C8_incomplete_or_unknown_stalls:
  assumes "rx \<noteq> []"
    and "case packet_size (Serial_peek rx) of
           None \<Rightarrow> True
         | Some n \<Rightarrow> Serial_available rx < n"
  shows "parseTurn now s rx = Stalled \<and> parseSerialData now s rx = (Inr s, rx, [])"
proof -
  let ?m = "Serial_peek rx" and ?a = "Serial_available rx"
  have a: "1 \<le> ?a" using assms(1) by (cases rx) (simp_all add: Serial_available_def)
  have none: "\<not> (?m = STOP_MARKER \<and> 1 \<le> ?a)"
        "\<not> (?m = RESET_MARKER \<and> 1 + MAX_RESET_SERVOS * 2 \<le> ?a)"
        "\<not> (?m = COMMAND_MARKER \<and> COMMAND_PACKET_SIZE \<le> ?a)"
        "\<not> (?m = END_MARKER \<and> END_PACKET_SIZE \<le> ?a)"
        "\<not> (?m = GET_TIME_MARKER \<and> GET_TIME_PACKET_SIZE \<le> ?a)"
        "\<not> (?m = SYNC_MARKER \<and> SYNC_PACKET_SIZE \<le> ?a)"
    using assms(2) a by (auto simp: packet_size_def wire_defs split: if_splits)
  have "parseTurn now s rx = Stalled"
    unfolding parseTurn_def Let_def by (simp only: none if_False)
  then show ?thesis by (simp add: parseSerialData_Stalled)
qed

theorem C8_witness:
  "[0xBB, 3, 90, 0, 0, 0] \<noteq> ([] :: u8 list)
   \<and> packet_size (Serial_peek [0xBB, 3, 90, 0, 0, 0]) = Some 7
   \<and> Serial_available [0xBB, 3, 90, 0, 0, 0] < 7
   \<and> parseSerialData 0 spec_example [0xBB, 3, 90, 0, 0, 0] =
       (Inr spec_example, [0xBB, 3, 90, 0, 0, 0], [])
   \<and> packet_size (Serial_peek [0x42, 0xEE]) = None
   \<and> parseSerialData 0 spec_example [0x42, 0xEE] = (Inr spec_example, [0x42, 0xEE], [])"
proof -
  have p1: "packet_size (Serial_peek [0xBB, 3, 90, 0, 0, 0]) = Some 7"
    by (simp add: packet_size_def wire_defs)
  have a1: "Serial_available [0xBB, 3, 90, 0, 0, 0] < 7" by simp
  have p2: "packet_size (Serial_peek [0x42, 0xEE]) = None"
    by (simp add: packet_size_def wire_defs)
  show ?thesis
    using C8_incomplete_or_unknown_stalls [of "[0xBB, 3, 90, 0, 0, 0]" 0 spec_example]
      C8_incomplete_or_unknown_stalls [of "[0x42, 0xEE]" 0 spec_example] p1 a1 p2
    by simp
qed

text \<open>
  C9. The parser decodes the four delay bytes of a PICK and of an END packet with the
  first byte least significant (little-endian), and the four time bytes of a SYNC packet
  and the two bytes of every RESET angle with the first byte most significant
  (big-endian, the angle as a signed 16-bit value). \<open>le32\<close>, \<open>be32\<close> and \<open>be16_signed\<close>
  are these readings written as sums; all of them fit the 32 bits of the field.
\<close>

theorem C9_byte_orders:
  "unat (word_of_nat (le32 da db dc dd) :: u32) = le32 da db dc dd
   \<and> unat (word_of_nat (be32 ta tb tc td) :: u32) = be32 ta tb tc td
   \<and> (0 \<le> commandCount s \<and> commandCount s < MAX_COMMANDS
        \<and> commandCount s < int (length (commandBuffer s)) \<longrightarrow>
        (case parseTurn now s (0xBB # t # a # da # db # dc # dd # rest) of
           Consumed s' rx' acts \<Rightarrow>
             pending s' = pending s @ [\<lparr>targetIndex = t, angle = a,
                                         relativeDelay = word_of_nat (le32 da db dc dd)\<rparr>]
         | _ \<Rightarrow> False)
        \<and> (case parseTurn now s (0xDD # da # db # dc # dd # rest) of
             Consumed s' rx' acts \<Rightarrow>
               pending s' = pending s @ [\<lparr>targetIndex = 255, angle = 0,
                                           relativeDelay = word_of_nat (le32 da db dc dd)\<rparr>]
           | _ \<Rightarrow> False))
   \<and> (case parseTurn now s (0xAA # 1 # ta # tb # tc # td # rest) of
         Consumed s' rx' acts \<Rightarrow> syncStartTime s' = word_of_nat (be32 ta tb tc td)
       | _ \<Rightarrow> False)
   \<and> (length payload = 36 \<longrightarrow>
        (case parseTurn now s (0xEF # payload @ rest) of
           Consumed s' rx' acts \<Rightarrow>
             servo_calls acts =
               map (\<lambda>k. (int k, be16_signed (payload ! (2 * k)) (payload ! (2 * k + 1))))
                 [0..<18]
         | _ \<Rightarrow> False))"
proof -
  have le: "unat (word_of_nat (le32 da db dc dd) :: u32) = le32 da db dc dd"
    by (rule unat_le32)
  have be: "unat (word_of_nat (be32 ta tb tc td) :: u32) = be32 ta tb tc td"
    unfolding be32_le32 by (rule unat_le32)
  have buffered: "0 \<le> commandCount s \<and> commandCount s < MAX_COMMANDS
        \<and> commandCount s < int (length (commandBuffer s)) \<longrightarrow>
        (case parseTurn now s (0xBB # t # a # da # db # dc # dd # rest) of
           Consumed s' rx' acts \<Rightarrow>
             pending s' = pending s @ [\<lparr>targetIndex = t, angle = a,
                                         relativeDelay = word_of_nat (le32 da db dc dd)\<rparr>]
         | _ \<Rightarrow> False)
        \<and> (case parseTurn now s (0xDD # da # db # dc # dd # rest) of
             Consumed s' rx' acts \<Rightarrow>
               pending s' = pending s @ [\<lparr>targetIndex = 255, angle = 0,
                                           relativeDelay = word_of_nat (le32 da db dc dd)\<rparr>]
           | _ \<Rightarrow> False)"
    by (simp add: parseTurn_PICK parseTurn_END le32_decode Let_def pending_append)
  have sync: "case parseTurn now s (0xAA # 1 # ta # tb # tc # td # rest) of
         Consumed s' rx' acts \<Rightarrow> syncStartTime s' = word_of_nat (be32 ta tb tc td)
       | _ \<Rightarrow> False"
    by (simp add: parseTurn_SYNC be32_decode Let_def)
  have calls: "servo_calls (map (\<lambda>k. ServoAngle (int k) (f k)) ks) = map (\<lambda>k. (int k, f k)) ks"
    for f :: "nat \<Rightarrow> int" and ks
    by (induction ks) simp_all
  have reset: "length payload = 36 \<longrightarrow>
        (case parseTurn now s (0xEF # payload @ rest) of
           Consumed s' rx' acts \<Rightarrow>
             servo_calls acts =
               map (\<lambda>k. (int k, be16_signed (payload ! (2 * k)) (payload ! (2 * k + 1))))
                 [0..<18]
         | _ \<Rightarrow> False)"
    by (simp add: parseTurn_RESET calls del: upt_Suc)
  from le be buffered sync reset show ?thesis by (intro conjI)
qed

theorem C9_witness:
  "0 \<le> commandCount fresh \<and> commandCount fresh < MAX_COMMANDS
   \<and> commandCount fresh < int (length (commandBuffer fresh))
   \<and> length reset_example = 36
   \<and> le32 0xF4 0x01 0 0 = 500 \<and> be32 0 0 0x03 0xE8 = 1000
   \<and> be16_signed 0x01 0x2C = 300 \<and> be16_signed 0xFF 0xFE = - 2
   \<and> (case parseTurn 0 fresh [0xBB, 3, 90, 0xF4, 0x01, 0, 0] of
         Consumed s' rx' acts \<Rightarrow>
           pending s' = [\<lparr>targetIndex = 3, angle = 90, relativeDelay = 500\<rparr>]
       | _ \<Rightarrow> False)
   \<and> (case parseTurn 0 fresh [0xDD, 0xF4, 0x01, 0, 0] of
         Consumed s' rx' acts \<Rightarrow>
           pending s' = [\<lparr>targetIndex = 255, angle = 0, relativeDelay = 500\<rparr>]
       | _ \<Rightarrow> False)
   \<and> (case parseTurn 0 fresh [0xAA, 1, 0, 0, 0x03, 0xE8] of
         Consumed s' rx' acts \<Rightarrow> syncStartTime s' = 1000
       | _ \<Rightarrow> False)
   \<and> (case parseTurn 0 fresh (0xEF # reset_example @ []) of
         Consumed s' rx' acts \<Rightarrow>
           servo_calls acts =
             [(0, 90), (1, - 1), (2, - 32768), (3, 0), (4, 0), (5, 0), (6, 0), (7, 0), (8, 0),
              (9, 0), (10, 0), (11, 0), (12, 0), (13, 0), (14, 0), (15, 0), (16, 0), (17, 300)]
       | _ \<Rightarrow> False)"
proof -
  have f: "commandCount fresh = 0" "length (commandBuffer fresh) = 1" "pending fresh = []"
    by (simp_all add: fresh_def RemoteControl_init_def pending_def)
  have v: "le32 0xF4 0x01 0 0 = 500" "be32 0 0 0x03 0xE8 = 1000"
    "be16_signed 0x01 0x2C = 300" "be16_signed 0xFF 0xFE = - 2"
    by (simp_all add: le32_def be32_def be16_signed_def)
  have len: "length reset_example = 36" by (simp add: reset_example_def)
  have upt: "[0..<18] = [0, 1, 2, 3, 4, 5, 6, 7, 8, 9, 10, 11, 12, 13, 14, 15, 16, 17]"
    by code_simp
  have angles: "map (\<lambda>k. (int k, be16_signed (reset_example ! (2 * k))
                                     (reset_example ! Suc (2 * k)))) [0..<18] =
      [(0, 90), (1, - 1), (2, - 32768), (3, 0), (4, 0), (5, 0), (6, 0), (7, 0), (8, 0),
       (9, 0), (10, 0), (11, 0), (12, 0), (13, 0), (14, 0), (15, 0), (16, 0), (17, 300)]"
    unfolding upt by (simp add: reset_example_def be16_signed_def)
  show ?thesis
    using C9_byte_orders [where da = "0xF4" and db = "0x01" and dc = 0 and dd = 0
        and ta = 0 and tb = 0 and tc = "0x03" and td = "0xE8" and s = fresh and now = 0
        and t = 3 and a = 90 and rest = "[]" and payload = reset_example]
    by (simp add: f v len angles MAX_COMMANDS_def del: upt_Suc cong: turn.case_cong)
qed

text \<open>
  C10. \<^verbatim>\<open>MAX_COMMANDS\<close> is 1. The object the constructor leaves has an array of one slot
  and a count of 0, and every operation keeps the count between 0 and 1: one turn of the
  parser (STOP, SYNC, PICK, END and the others), a whole call of \<^verbatim>\<open>parseSerialData\<close>, a
  call of \<^verbatim>\<open>update\<close>, and any number of calls of \<^verbatim>\<open>handle\<close>. So at most one command is
  pending at any time, and a PICK or END packet read while the slot is taken leaves the
  fields as they are.
\<close>

theorem C10_one_slot:
  "MAX_COMMANDS = 1
   \<and> well_formed (RemoteControl_init [c0])
   \<and> (well_formed s \<longrightarrow>
        0 \<le> commandCount s \<and> commandCount s \<le> 1 \<and> length (pending s) \<le> 1
        \<and> well_formed (fst (update now s))
        \<and> (\<forall>s' rx' acts. parseTurn now s rx = Consumed s' rx' acts \<longrightarrow> well_formed s')
        \<and> (\<forall>s' rx' acts. parseSerialData now s rx = (Inr s', rx', acts) \<longrightarrow> well_formed s')
        \<and> (\<forall>s' rx' acts. cycles es (Running s, rx) = ((Running s', rx'), acts)
              \<longrightarrow> well_formed s')
        \<and> (commandCount s = 1 \<longrightarrow>
             parseTurn now s (0xBB # t # a # d0 # d1 # d2 # d3 # rest) =
               Consumed s rest [SerialPrintln ''ERROR: command buffer full'']
             \<and> parseTurn now s (0xDD # d0 # d1 # d2 # d3 # rest) = Consumed s rest []))"
proof (intro conjI impI allI)
  show "MAX_COMMANDS = 1" by (simp add: MAX_COMMANDS_def)
  show "well_formed (RemoteControl_init [c0])"
    by (simp add: well_formed_def RemoteControl_init_def MAX_COMMANDS_def)
next
  assume wf: "well_formed s"
  show "0 \<le> commandCount s" "commandCount s \<le> 1" "length (pending s) \<le> 1"
    using wf by (simp_all add: well_formed_def MAX_COMMANDS_def pending_def)
  show "well_formed (fst (update now s))" using wf by (rule update_well_formed)
next
  fix s' rx' acts
  assume "well_formed s" "parseTurn now s rx = Consumed s' rx' acts"
  then show "well_formed s'" using parseTurn_well_formed by blast
next
  fix s' rx' acts
  assume "well_formed s" "parseSerialData now s rx = (Inr s', rx', acts)"
  then show "well_formed s'" using parseSerialData_well_formed by blast
next
  fix s' rx' acts
  assume "well_formed s" "cycles es (Running s, rx) = ((Running s', rx'), acts)"
  then show "well_formed s'" using cycles_well_formed by blast
next
  assume "well_formed s" "commandCount s = 1"
  then show "parseTurn now s (0xBB # t # a # d0 # d1 # d2 # d3 # rest) =
               Consumed s rest [SerialPrintln ''ERROR: command buffer full'']"
    and "parseTurn now s (0xDD # d0 # d1 # d2 # d3 # rest) = Consumed s rest []"
    by (simp_all add: parseTurn_PICK parseTurn_END MAX_COMMANDS_def Let_def)
qed

theorem C10_witness:
  "well_formed spec_example \<and> commandCount spec_example = 1
   \<and> parseTurn 0 spec_example [0xBB, 5, 45, 0, 0, 0, 0] =
       Consumed spec_example [] [SerialPrintln ''ERROR: command buffer full'']
   \<and> parseTurn 0 spec_example [0xDD, 0, 0, 0, 0] = Consumed spec_example [] []
   \<and> well_formed (fst (update 1500 spec_example))"
proof -
  have wf: "well_formed spec_example" and c: "commandCount spec_example = 1"
    by (simp_all add: well_formed_def spec_example_def MAX_COMMANDS_def)
  show ?thesis
    using C10_one_slot [where s = spec_example and now = 0 and t = 5 and a = 45
        and ?d0.0 = 0 and ?d1.0 = 0 and ?d2.0 = 0 and ?d3.0 = 0 and rest = "[]"]
      C10_one_slot [where s = spec_example and now = 1500] wf c
    by simp
qed

end
